theory Spec2Isabelle
  imports Main "HOL-Library.Word"
begin

unbundle bit_operations_syntax

section \<open>Wire primitives\<close>

text \<open>
  Bytes and the fixed-width integers of the protocol engine (qvncclient.cpp).
  \<open>quint16_be\<close>, \<open>quint32_be\<close> and \<open>quint32_le\<close> are stored on the wire in the
  byte order their name gives.
\<close>

type_synonym byte = "8 word"
type_synonym quint16 = "16 word"
type_synonym quint32 = "32 word"

definition ascii :: "string \<Rightarrow> byte list" where
  "ascii s = map of_char s"

definition be16 :: "byte \<Rightarrow> byte \<Rightarrow> quint16" where
  "be16 b0 b1 = push_bit 8 (ucast b0) OR ucast b1"

definition be32 :: "byte \<Rightarrow> byte \<Rightarrow> byte \<Rightarrow> byte \<Rightarrow> quint32" where
  "be32 b0 b1 b2 b3 =
     push_bit 24 (ucast b0) OR push_bit 16 (ucast b1) OR push_bit 8 (ucast b2) OR ucast b3"

definition le32 :: "byte \<Rightarrow> byte \<Rightarrow> byte \<Rightarrow> byte \<Rightarrow> quint32" where
  "le32 b0 b1 b2 b3 = be32 b3 b2 b1 b0"

definition le16 :: "byte \<Rightarrow> byte \<Rightarrow> quint16" where
  "le16 b0 b1 = be16 b1 b0"

definition bytes_be16 :: "quint16 \<Rightarrow> byte list" where
  "bytes_be16 v = [ucast (drop_bit 8 v), ucast v]"

definition bytes_be32 :: "quint32 \<Rightarrow> byte list" where
  "bytes_be32 v = [ucast (drop_bit 24 v), ucast (drop_bit 16 v), ucast (drop_bit 8 v), ucast v]"

section \<open>Data model\<close>

datatype HandshakingState =
    ProtocolVersionState
  | SecurityState
  | SecurityResultState
  | ClientInitState
  | ServerInitState
  | WaitingState

datatype ProtocolVersion =
    ProtocolVersionUnknown
  | ProtocolVersion33
  | ProtocolVersion37
  | ProtocolVersion38

text \<open>\<open>SecurityType\<close> is an enum over \<open>qint8\<close>; the value is kept as its byte (-1 is 0xff).\<close>

type_synonym SecurityType = byte

definition SecurityTypeUnknwon :: SecurityType where
  "SecurityTypeUnknwon = - 1"

definition SecurityTypeInvalid :: SecurityType where
  "SecurityTypeInvalid = 0"

definition SecurityTypeNone :: SecurityType where
  "SecurityTypeNone = 1"

record PixelFormat =
  bitsPerPixel :: byte
  depth :: byte
  bigEndianFlag :: byte
  trueColourFlag :: byte
  redMax :: quint16
  greenMax :: quint16
  blueMax :: quint16
  redShift :: byte
  greenShift :: byte
  blueShift :: byte
  padding1 :: byte
  padding2 :: byte
  padding3 :: byte

text \<open>\<open>struct Rectangle\<close>: four big-endian 16-bit fields x, y, w, h.\<close>

record Rectangle =
  rect_x :: quint16
  rect_y :: quint16
  rect_w :: quint16
  rect_h :: quint16

text \<open>
  \<open>struct TightData\<close>: four zlib streams and their active flags. The contents of a
  \<open>z_stream\<close> belong to zlib; the type \<open>'z\<close> stands for them. Only the indices 0..3
  are ever used (the stream id is \<open>compControl & 0x03\<close>).
\<close>

record 'z TightData =
  zlibStream :: "nat \<Rightarrow> 'z"
  zlibStreamActive :: "nat \<Rightarrow> bool"
  jpegQuality :: int
  compressionLevel :: int

text \<open>
  The framebuffer \<open>QImage\<close> (Format_ARGB32): its size and its pixels. A \<open>QImage\<close>
  constructed with a width or height of zero is the null image of size 0 x 0.
  \<open>setPixel\<close> outside the image is ignored by Qt (it warns and returns).
\<close>

record QImage =
  img_width :: nat
  img_height :: nat
  pixels :: "nat \<times> nat \<Rightarrow> quint32"

definition QImage_null :: QImage where
  "QImage_null = \<lparr>img_width = 0, img_height = 0, pixels = (\<lambda>_. 0)\<rparr>"

definition QImage_new :: "nat \<Rightarrow> nat \<Rightarrow> QImage" where
  "QImage_new w h =
     (if w = 0 \<or> h = 0 then QImage_null
      else \<lparr>img_width = w, img_height = h, pixels = (\<lambda>_. 0)\<rparr>)"

definition fill :: "quint32 \<Rightarrow> QImage \<Rightarrow> QImage" where
  "fill colour img = img\<lparr>pixels := (\<lambda>_. colour)\<rparr>"

definition white :: quint32 where
  "white = 0xffffffff"

definition setPixel :: "nat \<Rightarrow> nat \<Rightarrow> quint32 \<Rightarrow> QImage \<Rightarrow> QImage" where
  "setPixel px py colour img =
     (if px < img_width img \<and> py < img_height img
      then img\<lparr>pixels := (pixels img)((px, py) := colour)\<rparr>
      else img)"

definition qRgb :: "quint32 \<Rightarrow> quint32 \<Rightarrow> quint32 \<Rightarrow> quint32" where
  "qRgb r g b =
     0xff000000 OR push_bit 16 (r AND 0xff) OR push_bit 8 (g AND 0xff) OR (b AND 0xff)"

text \<open>
  The socket as the engine sees it. \<open>present\<close> is false for a null pointer,
  \<open>connected\<close> says that \<open>state()\<close> is \<open>ConnectedState\<close>, \<open>avail\<close> holds the bytes
  that can be read now (\<open>bytesAvailable()\<close> is its length) and \<open>pending\<close> the chunks
  that are still to arrive: each \<open>waitForReadyRead\<close> delivers the next chunk and returns
  true, or returns false (a timeout) when none is left.
\<close>

record QTcpSocket =
  present :: bool
  connected :: bool
  avail :: "byte list"
  pending :: "byte list list"

text \<open>
  What the engine does to the outside, in order: the bytes of each socket write, the
  signals \<open>imageChanged(QRect(x, y, w, h))\<close> and \<open>framebufferSizeChanged(w, h)\<close>, and
  the warnings it logs.
\<close>

datatype event =
    Wrote "byte list"
  | ImageChanged nat nat nat nat
  | FramebufferSizeChanged nat nat
  | Warned string

record 'z Private =
  state :: HandshakingState
  pixelFormat :: PixelFormat
  keyMap :: "int \<Rightarrow> quint32 option"
  socket :: QTcpSocket
  tightData :: "'z TightData"
  protocolVersion :: ProtocolVersion
  securityType :: SecurityType
  image :: QImage
  frameBufferWidth :: nat
  frameBufferHeight :: nat
  trace :: "event list"

text \<open>
  A run of the engine either returns, or does not: a wait loop that never gets its
  bytes (\<open>Hang\<close>), a read into a variable that was never initialised and that the
  socket could not fill (\<open>UninitRead\<close>), or a read past the end of a buffer
  (\<open>OutOfBounds\<close>); after the last two the C++ is not determined.
\<close>

datatype fault = Hang | UninitRead | OutOfBounds

definition then_do :: "fault + 'a \<Rightarrow> ('a \<Rightarrow> fault + 'b) \<Rightarrow> fault + 'b" where
  "then_do m f = (case m of Inl e \<Rightarrow> Inl e | Inr v \<Rightarrow> f v)"

section \<open>Socket access\<close>

definition isValid :: "'z Private \<Rightarrow> bool" where
  "isValid c = (present (socket c) \<and> connected (socket c))"

definition bytesAvailable :: "'z Private \<Rightarrow> nat" where
  "bytesAvailable c = length (avail (socket c))"

definition emit :: "event \<Rightarrow> 'z Private \<Rightarrow> 'z Private" where
  "emit e c = c\<lparr>trace := trace c @ [e]\<rparr>"

text \<open>\<open>socket->read(n)\<close>: up to \<open>n\<close> bytes of what is available.\<close>

definition socket_read :: "nat \<Rightarrow> 'z Private \<Rightarrow> byte list \<times> 'z Private" where
  "socket_read n c =
     (take n (avail (socket c)),
      c\<lparr>socket := (socket c)\<lparr>avail := drop n (avail (socket c))\<rparr>\<rparr>)"

text \<open>\<open>socket->write(...)\<close>: a socket that is not connected is not open and takes nothing.\<close>

definition socket_write :: "byte list \<Rightarrow> 'z Private \<Rightarrow> 'z Private" where
  "socket_write bs c = (if connected (socket c) then emit (Wrote bs) c else c)"

text \<open>The templates \<open>read(T *out)\<close> and \<open>write(const T &out)\<close>, guarded by \<open>isValid()\<close>.\<close>

definition read_T :: "nat \<Rightarrow> 'z Private \<Rightarrow> byte list \<times> 'z Private" where
  "read_T n c = (if isValid c then socket_read n c else ([], c))"

definition write_T :: "byte list \<Rightarrow> 'z Private \<Rightarrow> 'z Private" where
  "write_T bs c = (if isValid c then socket_write bs c else c)"

text \<open>A read of \<open>n\<close> bytes into an uninitialised variable: all of it, or a fault.\<close>

definition read_uninit :: "nat \<Rightarrow> 'z Private \<Rightarrow> fault + (byte list \<times> 'z Private)" where
  "read_uninit n c =
     (case read_T n c of (bs, c') \<Rightarrow> if length bs = n then Inr (bs, c') else Inl UninitRead)"

text \<open>The same through \<open>socket->read(ptr, n)\<close>, without the \<open>isValid()\<close> guard.\<close>

definition socket_read_uninit :: "nat \<Rightarrow> 'z Private \<Rightarrow> fault + (byte list \<times> 'z Private)" where
  "socket_read_uninit n c =
     (case socket_read n c of (bs, c') \<Rightarrow> if length bs = n then Inr (bs, c') else Inl UninitRead)"

definition waitForReadyRead :: "'z Private \<Rightarrow> bool \<times> 'z Private" where
  "waitForReadyRead c =
     (case pending (socket c) of
        [] \<Rightarrow> (False, c)
      | ch # rest \<Rightarrow>
          (True, c\<lparr>socket := (socket c)\<lparr>avail := avail (socket c) @ ch, pending := rest\<rparr>\<rparr>))"

section \<open>Handshake\<close>

definition version33 :: "byte list" where
  "version33 = ascii (''RFB 003.003'' @ [CHR 0x0A])"

definition version37 :: "byte list" where
  "version37 = ascii (''RFB 003.007'' @ [CHR 0x0A])"

definition version38 :: "byte list" where
  "version38 = ascii (''RFB 003.008'' @ [CHR 0x0A])"

definition protocolVersionChanged :: "ProtocolVersion \<Rightarrow> 'z Private \<Rightarrow> 'z Private" where
  "protocolVersionChanged v c =
     (case v of
        ProtocolVersion33 \<Rightarrow> (socket_write version33 c)\<lparr>state := SecurityState\<rparr>
      | ProtocolVersion37 \<Rightarrow> (socket_write version37 c)\<lparr>state := SecurityState\<rparr>
      | ProtocolVersion38 \<Rightarrow> (socket_write version38 c)\<lparr>state := SecurityState\<rparr>
      | ProtocolVersionUnknown \<Rightarrow> c)"

text \<open>
  \<open>QVncClient::setProtocolVersion\<close>: nothing when the version is the one already
  held; otherwise it is stored and the signal runs \<open>protocolVersionChanged\<close>.
\<close>

definition setProtocolVersion :: "ProtocolVersion \<Rightarrow> 'z Private \<Rightarrow> 'z Private" where
  "setProtocolVersion v c =
     (if protocolVersion c = v then c
      else protocolVersionChanged v (c\<lparr>protocolVersion := v\<rparr>))"

definition parseProtocolVersion :: "'z Private \<Rightarrow> 'z Private" where
  "parseProtocolVersion c =
     (if bytesAvailable c < 12 then c
      else case socket_read 12 c of (val, c1) \<Rightarrow>
        if val = version33 then setProtocolVersion ProtocolVersion33 c1
        else if val = version37 then setProtocolVersion ProtocolVersion33 c1
        else if val = version38 then setProtocolVersion ProtocolVersion33 c1
        else emit (Warned ''Unsupported protocol version:'') c1)"

text \<open>Reads of the fixed-width integers into uninitialised variables.\<close>

definition read_u8 :: "'z Private \<Rightarrow> fault + (byte \<times> 'z Private)" where
  "read_u8 c =
     (case read_T 1 c of
        ([b0], c') \<Rightarrow> Inr (b0, c')
      | _ \<Rightarrow> Inl UninitRead)"

definition read_be16 :: "'z Private \<Rightarrow> fault + (quint16 \<times> 'z Private)" where
  "read_be16 c =
     (case read_T 2 c of
        ([b0, b1], c') \<Rightarrow> Inr (be16 b0 b1, c')
      | _ \<Rightarrow> Inl UninitRead)"

definition read_be32 :: "'z Private \<Rightarrow> fault + (quint32 \<times> 'z Private)" where
  "read_be32 c =
     (case read_T 4 c of
        ([b0, b1, b2, b3], c') \<Rightarrow> Inr (be32 b0 b1 b2 b3, c')
      | _ \<Rightarrow> Inl UninitRead)"

definition read_le32 :: "'z Private \<Rightarrow> fault + (quint32 \<times> 'z Private)" where
  "read_le32 c =
     (case read_T 4 c of
        ([b0, b1, b2, b3], c') \<Rightarrow> Inr (le32 b0 b1 b2 b3, c')
      | _ \<Rightarrow> Inl UninitRead)"

text \<open>A one-byte read into a variable that was initialised to \<open>d\<close>.\<close>

definition read_u8_init :: "byte \<Rightarrow> 'z Private \<Rightarrow> byte \<times> 'z Private" where
  "read_u8_init d c =
     (case read_T 1 c of (bs, c') \<Rightarrow> (case bs of [] \<Rightarrow> d | b0 # _ \<Rightarrow> b0, c'))"

text \<open>The same through \<open>socket->read(ptr, 1)\<close>.\<close>

definition socket_read_u8_init :: "byte \<Rightarrow> 'z Private \<Rightarrow> byte \<times> 'z Private" where
  "socket_read_u8_init d c =
     (case socket_read 1 c of (bs, c') \<Rightarrow> (case bs of [] \<Rightarrow> d | b0 # _ \<Rightarrow> b0, c'))"

definition socket_read_u8 :: "'z Private \<Rightarrow> fault + (byte \<times> 'z Private)" where
  "socket_read_u8 c =
     (case socket_read 1 c of
        ([b0], c') \<Rightarrow> Inr (b0, c')
      | _ \<Rightarrow> Inl UninitRead)"

subsection \<open>Security\<close>

definition clientInit :: "'z Private \<Rightarrow> 'z Private" where
  "clientInit c = (write_T [1] c)\<lparr>state := ServerInitState\<rparr>"

definition parseSecurityReason :: "'z Private \<Rightarrow> fault + 'z Private" where
  "parseSecurityReason c =
     (if bytesAvailable c < 4 then Inr c
      else then_do (read_be32 c) (\<lambda>(reasonLength, c1).
        if bytesAvailable c1 < unat reasonLength then Inr c1
        else case socket_read (unat reasonLength) c1 of (reason, c2) \<Rightarrow>
          Inr (emit (Warned ''Security failure reason:'') c2)))"

definition securityTypeChanged :: "SecurityType \<Rightarrow> 'z Private \<Rightarrow> fault + 'z Private" where
  "securityTypeChanged t c =
     (if t = SecurityTypeUnknwon then Inr c
      else if t = SecurityTypeInvalid then parseSecurityReason c
      else if t = SecurityTypeNone then
        (case protocolVersion c of
           ProtocolVersion33 \<Rightarrow> Inr (clientInit (c\<lparr>state := ClientInitState\<rparr>))
         | ProtocolVersion37 \<Rightarrow> Inr (clientInit (write_T [t] (c\<lparr>state := ClientInitState\<rparr>)))
         | ProtocolVersion38 \<Rightarrow> Inr ((write_T [t] c)\<lparr>state := SecurityResultState\<rparr>)
         | ProtocolVersionUnknown \<Rightarrow> Inr c)
      else Inr (emit (Warned ''Security type not supported'') c))"

definition setSecurityType :: "SecurityType \<Rightarrow> 'z Private \<Rightarrow> fault + 'z Private" where
  "setSecurityType t c =
     (if securityType c = t then Inr c
      else securityTypeChanged t (c\<lparr>securityType := t\<rparr>))"

definition parseSecurity33 :: "'z Private \<Rightarrow> fault + 'z Private" where
  "parseSecurity33 c =
     (if bytesAvailable c < 4 then Inr c
      else then_do (read_be32 c) (\<lambda>(data, c1). setSecurityType (ucast data) c1))"

fun read_security_types :: "nat \<Rightarrow> 'z Private \<Rightarrow> byte list \<times> 'z Private" where
  "read_security_types 0 c = ([], c)"
| "read_security_types (Suc n) c =
     (case read_u8_init 0 c of (t, c1) \<Rightarrow>
        case read_security_types n c1 of (ts, c2) \<Rightarrow> (t # ts, c2))"

definition parseSecurity37 :: "'z Private \<Rightarrow> fault + 'z Private" where
  "parseSecurity37 c =
     (if bytesAvailable c < 1 then Inr c
      else case read_u8_init 0 c of (numberOfSecurityTypes, c1) \<Rightarrow>
        if numberOfSecurityTypes = 0 then parseSecurityReason c1
        else if bytesAvailable c1 < unat numberOfSecurityTypes then Inr c1
        else case read_security_types (unat numberOfSecurityTypes) c1 of (securityTypes, c2) \<Rightarrow>
          if SecurityTypeNone \<in> set securityTypes then setSecurityType SecurityTypeNone c2
          else setSecurityType SecurityTypeInvalid c2)"

definition parseSecurity :: "'z Private \<Rightarrow> fault + 'z Private" where
  "parseSecurity c =
     (case protocolVersion c of
        ProtocolVersion33 \<Rightarrow> parseSecurity33 c
      | ProtocolVersion37 \<Rightarrow> parseSecurity37 c
      | ProtocolVersion38 \<Rightarrow> parseSecurity37 c
      | ProtocolVersionUnknown \<Rightarrow> Inr c)"

section \<open>Client to server messages\<close>

definition pixelFormat_bytes :: "PixelFormat \<Rightarrow> byte list" where
  "pixelFormat_bytes pf =
     [bitsPerPixel pf, depth pf, bigEndianFlag pf, trueColourFlag pf]
     @ bytes_be16 (redMax pf) @ bytes_be16 (greenMax pf) @ bytes_be16 (blueMax pf)
     @ [redShift pf, greenShift pf, blueShift pf, padding1 pf, padding2 pf, padding3 pf]"

definition pixelFormat_of_bytes :: "byte list \<Rightarrow> PixelFormat option" where
  "pixelFormat_of_bytes bs =
     (case bs of
        [b0, b1, b2, b3, b4, b5, b6, b7, b8, b9, b10, b11, b12, b13, b14, b15] \<Rightarrow>
          Some \<lparr>bitsPerPixel = b0, depth = b1, bigEndianFlag = b2, trueColourFlag = b3,
                redMax = be16 b4 b5, greenMax = be16 b6 b7, blueMax = be16 b8 b9,
                redShift = b10, greenShift = b11, blueShift = b12,
                padding1 = b13, padding2 = b14, padding3 = b15\<rparr>
      | _ \<Rightarrow> None)"

definition setPixelFormat :: "'z Private \<Rightarrow> 'z Private" where
  "setPixelFormat c =
     write_T (pixelFormat_bytes (pixelFormat c)) (write_T (ascii ''   '') (write_T [0x00] c))"

text \<open>The encoding tags of \<open>enum EncodingType\<close>.\<close>

definition RawEncoding :: int where
  "RawEncoding = 0"

definition CopyRect :: int where
  "CopyRect = 1"

definition RRE :: int where
  "RRE = 2"

definition Hextile :: int where
  "Hextile = 5"

definition ZRLE :: int where
  "ZRLE = 16"

definition Tight :: int where
  "Tight = 7"

definition setEncodings :: "int list \<Rightarrow> 'z Private \<Rightarrow> 'z Private" where
  "setEncodings encodings c =
     fold (\<lambda>encoding. write_T (bytes_be32 (word_of_int encoding))) encodings
       (write_T (bytes_be16 (word_of_nat (length encodings)))
         (write_T (ascii '' '') (write_T [0x02] c)))"

text \<open>
  A \<open>QRect\<close> as (x, y, width, height); \<open>QRect()\<close> is the default argument of
  \<open>framebufferUpdateRequest\<close> and is empty.
\<close>

type_synonym QRect = "int \<times> int \<times> int \<times> int"

definition QRect_default :: QRect where
  "QRect_default = (0, 0, 0, 0)"

definition isEmpty :: "QRect \<Rightarrow> bool" where
  "isEmpty r = (case r of (rx, ry, rw, rh) \<Rightarrow> rw \<le> 0 \<or> rh \<le> 0)"

definition rectangle_bytes :: "Rectangle \<Rightarrow> byte list" where
  "rectangle_bytes r =
     bytes_be16 (rect_x r) @ bytes_be16 (rect_y r) @ bytes_be16 (rect_w r) @ bytes_be16 (rect_h r)"

definition framebufferUpdateRequest :: "bool \<Rightarrow> QRect \<Rightarrow> 'z Private \<Rightarrow> 'z Private" where
  "framebufferUpdateRequest incremental rect c =
     (let c1 = write_T [0x03] c;
          c2 = write_T [if incremental then 1 else 0] c1;
          rectangle =
            (if isEmpty rect
             then \<lparr>rect_x = 0, rect_y = 0,
                   rect_w = word_of_nat (frameBufferWidth c2),
                   rect_h = word_of_nat (frameBufferHeight c2)\<rparr>
             else case rect of (rx, ry, rw, rh) \<Rightarrow>
                  \<lparr>rect_x = word_of_int rx, rect_y = word_of_int ry,
                   rect_w = word_of_int rw, rect_h = word_of_int rh\<rparr>)
      in write_T (rectangle_bytes rectangle) c2)"

section \<open>Server initialisation\<close>

definition parserServerInit :: "'z Private \<Rightarrow> fault + 'z Private" where
  "parserServerInit c =
     (if bytesAvailable c < 2 + 2 + 16 + 4 then Inr c
      else
        then_do (read_be16 c) (\<lambda>(framebufferWidth, c1).
        then_do (read_be16 c1) (\<lambda>(framebufferHeight, c2).
          let c3 = emit (FramebufferSizeChanged (unat framebufferWidth) (unat framebufferHeight))
                     (c2\<lparr>frameBufferWidth := unat framebufferWidth,
                         frameBufferHeight := unat framebufferHeight\<rparr>);
              c4 = c3\<lparr>image := fill white (QImage_new (unat framebufferWidth) (unat framebufferHeight))\<rparr>
          in case read_T 16 c4 of (pfb, c5) \<Rightarrow>
            (case pixelFormat_of_bytes pfb of
               None \<Rightarrow> Inl UninitRead
             | Some pf \<Rightarrow>
                 then_do (read_be32 (c5\<lparr>pixelFormat := pf\<rparr>)) (\<lambda>(nameLength, c6).
                   if bytesAvailable c6 < unat nameLength then Inr c6
                   else case socket_read (unat nameLength) c6 of (nameString, c7) \<Rightarrow>
                     Inr (framebufferUpdateRequest False QRect_default
                            (setEncodings [Tight, ZRLE, Hextile, RawEncoding]
                              (setPixelFormat (c7\<lparr>state := WaitingState\<rparr>)))))))))"

section \<open>Loops and arithmetic of the decoders\<close>

text \<open>
  C++ \<open>int\<close> is 32 bits wide: \<open>int32\<close> is the value a product or sum takes
  after wrap-around, and \<open>cdiv\<close> is the division of C++, which truncates towards
  zero.
\<close>

definition int32 :: "int \<Rightarrow> int" where
  "int32 i = sint (word_of_int i :: 32 word)"

definition cdiv :: "int \<Rightarrow> int \<Rightarrow> int" where
  "cdiv a b = sgn a * sgn b * (\<bar>a\<bar> div \<bar>b\<bar>)"

text \<open>
  A \<open>for\<close> loop whose body may leave the enclosing function: the body answers
  \<open>True\<close> when it has executed \<open>return\<close>, and the loop stops there.
\<close>

fun for_each :: "'i list \<Rightarrow> ('i \<Rightarrow> 's \<Rightarrow> fault + (bool \<times> 's)) \<Rightarrow> 's \<Rightarrow> fault + (bool \<times> 's)" where
  "for_each [] body s = Inr (False, s)"
| "for_each (i # rest) body s =
     (case body i s of
        Inl e \<Rightarrow> Inl e
      | Inr (returned, s') \<Rightarrow> if returned then Inr (True, s') else for_each rest body s')"

text \<open>A \<open>for\<close> loop whose body never leaves the function.\<close>

fun for_all :: "'i list \<Rightarrow> ('i \<Rightarrow> 's \<Rightarrow> fault + 's) \<Rightarrow> 's \<Rightarrow> fault + 's" where
  "for_all [] body s = Inr s"
| "for_all (i # rest) body s =
     (case body i s of Inl e \<Rightarrow> Inl e | Inr s' \<Rightarrow> for_all rest body s')"

text \<open>The values of \<open>t\<close> in \<open>for (t = 0; t < n; t += step)\<close>.\<close>

definition tile_origins :: "nat \<Rightarrow> nat \<Rightarrow> nat list" where
  "tile_origins n step = map (\<lambda>i. i * step) [0..<(n + step - 1) div step]"

text \<open>
  \<open>while (socket->bytesAvailable() < n) socket->waitForReadyRead();\<close> A wait that
  times out changes nothing, so the loop then runs for ever.
\<close>

function wait_while_short :: "int \<Rightarrow> 'z Private \<Rightarrow> fault + 'z Private" where
  "wait_while_short n c =
     (if int (bytesAvailable c) < n
      then (case waitForReadyRead c of (ok, c') \<Rightarrow>
              if ok then wait_while_short n c' else Inl Hang)
      else Inr c)"
  by pat_completeness auto
termination
  by (relation "measure (\<lambda>(n, c). length (pending (socket c)))")
     (auto simp: waitForReadyRead_def split: list.splits)

text \<open>
  The colour of a pixel word: each channel is shifted down and masked with the
  channel maximum, and the three values go to \<open>qRgb\<close> as they are. (A shift of 32
  or more is not defined in C++; it gives 0 here.)
\<close>

definition pixel_rgb :: "PixelFormat \<Rightarrow> quint32 \<Rightarrow> quint32" where
  "pixel_rgb pf color =
     qRgb (drop_bit (unat (redShift pf)) color AND ucast (redMax pf))
          (drop_bit (unat (greenShift pf)) color AND ucast (greenMax pf))
          (drop_bit (unat (blueShift pf)) color AND ucast (blueMax pf))"

definition put :: "nat \<Rightarrow> nat \<Rightarrow> quint32 \<Rightarrow> 'z Private \<Rightarrow> 'z Private" where
  "put px py colour c = c\<lparr>image := setPixel px py colour (image c)\<rparr>"

text \<open>Two nested loops that set every pixel of a block to one colour.\<close>

definition fill_rect :: "nat \<Rightarrow> nat \<Rightarrow> nat \<Rightarrow> nat \<Rightarrow> quint32 \<Rightarrow> QImage \<Rightarrow> QImage" where
  "fill_rect x0 y0 w h colour img =
     fold (\<lambda>y. fold (\<lambda>x. setPixel (x0 + x) (y0 + y) colour) [0..<w]) [0..<h] img"

section \<open>Raw encoding\<close>

definition raw_pixel :: "Rectangle \<Rightarrow> nat \<Rightarrow> nat \<Rightarrow> 'z Private \<Rightarrow> fault + (bool \<times> 'z Private)" where
  "raw_pixel rect y x c =
     (if bitsPerPixel (pixelFormat c) = 32 then
        then_do (read_le32 c) (\<lambda>(color, c1).
          Inr (False, put (unat (rect_x rect) + x) (unat (rect_y rect) + y)
                          (pixel_rgb (pixelFormat c1) color) c1))
      else Inr (True, emit (Warned ''bits per pixel not supported'') c))"

definition raw_row :: "Rectangle \<Rightarrow> nat \<Rightarrow> 'z Private \<Rightarrow> fault + (bool \<times> 'z Private)" where
  "raw_row rect y c =
     then_do (for_each [0..<unat (rect_w rect)] (raw_pixel rect y) c) (\<lambda>(returned, c1).
       if returned then Inr (True, c1)
       else Inr (False, emit (ImageChanged (unat (rect_x rect)) (unat (rect_y rect))
                                           (unat (rect_w rect)) (unat (rect_h rect))) c1))"

definition handleRawEncoding :: "Rectangle \<Rightarrow> 'z Private \<Rightarrow> fault + 'z Private" where
  "handleRawEncoding rect c =
     then_do (wait_while_short
                (cdiv (int32 (uint (rect_w rect) * uint (rect_h rect)
                              * uint (bitsPerPixel (pixelFormat c)))) 8) c) (\<lambda>c1.
     then_do (for_each [0..<unat (rect_h rect)] (raw_row rect) c1) (\<lambda>(returned, c2).
       if returned then Inr c2
       else Inr (framebufferUpdateRequest True QRect_default c2)))"

section \<open>Hextile encoding\<close>

text \<open>The bits of \<open>enum HextileSubencoding\<close>.\<close>

definition RawSubencoding :: byte where
  "RawSubencoding = 1"

definition BackgroundSpecified :: byte where
  "BackgroundSpecified = 2"

definition ForegroundSpecified :: byte where
  "ForegroundSpecified = 4"

definition AnySubrects :: byte where
  "AnySubrects = 8"

definition SubrectsColoured :: byte where
  "SubrectsColoured = 16"

text \<open>A colour word that is read only when the pixel format has 32 bits.\<close>

definition read_colour_if32 :: "bool \<Rightarrow> quint32 \<Rightarrow> 'z Private \<Rightarrow> fault + (quint32 \<times> 'z Private)" where
  "read_colour_if32 specified old c =
     (if specified then
        (if bitsPerPixel (pixelFormat c) = 32 then read_le32 c else Inr (old, c))
      else Inr (old, c))"

definition hextile_raw_pixel :: "Rectangle \<Rightarrow> nat \<Rightarrow> nat \<Rightarrow> nat \<Rightarrow> nat \<Rightarrow> 'z Private \<Rightarrow> fault + 'z Private" where
  "hextile_raw_pixel rect tx ty y x c =
     (if bitsPerPixel (pixelFormat c) = 32 then
        then_do (read_le32 c) (\<lambda>(color, c1).
          Inr (put (unat (rect_x rect) + tx + x) (unat (rect_y rect) + ty + y)
                   (pixel_rgb (pixelFormat c1) color) c1))
      else Inr c)"

text \<open>
  One subrectangle. The drawing loops run while \<open>y < sh && sy + y < th\<close> and
  \<open>x < sw && sx + x < tw\<close>, that is over the part of the subrectangle inside the tile.
\<close>

definition hextile_subrect :: "Rectangle \<Rightarrow> nat \<Rightarrow> nat \<Rightarrow> nat \<Rightarrow> nat \<Rightarrow> byte \<Rightarrow> quint32 \<Rightarrow> 'z Private \<Rightarrow> fault + 'z Private" where
  "hextile_subrect rect tx ty tw th subencoding foregroundColor c =
     then_do (read_colour_if32 (subencoding AND SubrectsColoured \<noteq> 0) foregroundColor c) (\<lambda>(color, c1).
     then_do (read_u8 c1) (\<lambda>(xy, c2).
     then_do (read_u8 c2) (\<lambda>(wh, c3).
       let sx = unat (drop_bit 4 xy AND 0xf);
           sy = unat (xy AND 0xf);
           sw = unat (drop_bit 4 wh AND 0xf) + 1;
           sh = unat (wh AND 0xf) + 1
       in Inr (c3\<lparr>image :=
                 fill_rect (unat (rect_x rect) + tx + sx) (unat (rect_y rect) + ty + sy)
                   (min sw (tw - sx)) (min sh (th - sy))
                   (pixel_rgb (pixelFormat c3) color) (image c3)\<rparr>))))"

definition hextile_tile :: "Rectangle \<Rightarrow> nat \<Rightarrow> nat \<Rightarrow> quint32 \<times> quint32 \<times> 'z Private \<Rightarrow> fault + (quint32 \<times> quint32 \<times> 'z Private)" where
  "hextile_tile rect ty tx s =
     (case s of (backgroundColor, foregroundColor, c) \<Rightarrow>
      let th = min 16 (unat (rect_h rect) - ty);
          tw = min 16 (unat (rect_w rect) - tx)
      in
      then_do (read_u8 c) (\<lambda>(subencoding, c1).
        if subencoding AND RawSubencoding \<noteq> 0 then
          then_do (for_all [0..<th] (\<lambda>y. for_all [0..<tw] (hextile_raw_pixel rect tx ty y)) c1)
            (\<lambda>c2. Inr (backgroundColor, foregroundColor, c2))
        else
          then_do (read_colour_if32 (subencoding AND BackgroundSpecified \<noteq> 0) backgroundColor c1)
            (\<lambda>(bg, c2).
          let c3 = c2\<lparr>image :=
                     fill_rect (unat (rect_x rect) + tx) (unat (rect_y rect) + ty) tw th
                       (pixel_rgb (pixelFormat c2) bg) (image c2)\<rparr>
          in
          if subencoding AND AnySubrects \<noteq> 0 then
            then_do (read_colour_if32 (subencoding AND ForegroundSpecified \<noteq> 0) foregroundColor c3)
              (\<lambda>(fg, c4).
            then_do (read_u8 c4) (\<lambda>(numSubrects, c5).
            then_do (for_all [0..<unat numSubrects]
                       (\<lambda>i. hextile_subrect rect tx ty tw th subencoding fg) c5)
              (\<lambda>c6. Inr (bg, fg, c6))))
          else Inr (bg, foregroundColor, c3))))"

definition handleHextileEncoding :: "Rectangle \<Rightarrow> 'z Private \<Rightarrow> fault + 'z Private" where
  "handleHextileEncoding rect c =
     then_do (for_all (tile_origins (unat (rect_h rect)) 16)
                (\<lambda>ty. for_all (tile_origins (unat (rect_w rect)) 16) (hextile_tile rect ty))
                (0, 0, c))
       (\<lambda>(backgroundColor, foregroundColor, c'). Inr c')"

section \<open>External libraries\<close>

text \<open>
  zlib and Qt are not part of the engine; their functions are parameters of the model.
  \<open>inflateInit\<close> is the state of a freshly initialised \<open>z_stream\<close>.
  \<open>inflate z input capacity\<close> stands for \<open>inflate(&z, Z_SYNC_FLUSH)\<close> on the given
  input with \<open>capacity\<close> bytes of output space: it gives the return code, the new
  stream state and the bytes it produced. \<open>qUncompress\<close> is Qt's one-call
  decompression of a whole byte array (the empty array when it fails), and
  \<open>loadFromData\<close> decodes a JPEG image (\<open>None\<close> when it fails).
\<close>

record 'z extlib =
  inflateInit :: 'z
  inflate :: "'z \<Rightarrow> byte list \<Rightarrow> nat \<Rightarrow> int \<times> 'z \<times> byte list"
  qUncompress :: "byte list \<Rightarrow> byte list"
  loadFromData :: "byte list \<Rightarrow> QImage option"

definition Z_OK :: int where
  "Z_OK = 0"

definition Z_STREAM_END :: int where
  "Z_STREAM_END = 1"

section \<open>ZRLE encoding\<close>

text \<open>Reads from the decompressed buffer, by offset.\<close>

definition at :: "byte list \<Rightarrow> nat \<Rightarrow> fault + byte" where
  "at data i = (if i < length data then Inr (data ! i) else Inl OutOfBounds)"

definition at_le32 :: "byte list \<Rightarrow> nat \<Rightarrow> fault + quint32" where
  "at_le32 data i =
     (if i + 4 \<le> length data
      then Inr (le32 (data ! i) (data ! (i + 1)) (data ! (i + 2)) (data ! (i + 3)))
      else Inl OutOfBounds)"

definition at_le24 :: "byte list \<Rightarrow> nat \<Rightarrow> fault + quint32" where
  "at_le24 data i =
     (if i + 3 \<le> length data
      then Inr (le32 (data ! i) (data ! (i + 1)) (data ! (i + 2)) 0)
      else Inl OutOfBounds)"

definition at_le16 :: "byte list \<Rightarrow> nat \<Rightarrow> fault + quint32" where
  "at_le16 data i =
     (if i + 2 \<le> length data
      then Inr (le32 (data ! i) (data ! (i + 1)) 0 0)
      else Inl OutOfBounds)"

definition at_u8 :: "byte list \<Rightarrow> nat \<Rightarrow> fault + quint32" where
  "at_u8 data i = (if i < length data then Inr (ucast (data ! i)) else Inl OutOfBounds)"

text \<open>
  The wait for the compressed data: a timeout logs a warning and leaves the loop, and
  the decoder goes on with what has arrived.
\<close>

function zrle_wait :: "nat \<Rightarrow> 'z Private \<Rightarrow> 'z Private" where
  "zrle_wait n c =
     (if bytesAvailable c < n
      then (case waitForReadyRead c of (ok, c') \<Rightarrow>
              if ok then zrle_wait n c'
              else emit (Warned ''Timeout waiting for ZRLE data'') c')
      else c)"
  by pat_completeness auto
termination
  by (relation "measure (\<lambda>(n, c). length (pending (socket c)))")
     (auto simp: waitForReadyRead_def split: list.splits)

definition zrle_raw_pixel :: "Rectangle \<Rightarrow> byte list \<Rightarrow> nat \<Rightarrow> nat \<Rightarrow> nat \<Rightarrow> nat \<Rightarrow> nat \<times> 'z Private \<Rightarrow> fault + (nat \<times> 'z Private)" where
  "zrle_raw_pixel rect data tx ty y x s =
     (case s of (dataOffset, c) \<Rightarrow>
      let bytesPerPixel = unat (bitsPerPixel (pixelFormat c)) div 8;
          px = unat (rect_x rect) + tx + x;
          py = unat (rect_y rect) + ty + y
      in
      if bytesPerPixel = 4 then
        then_do (at_le32 data dataOffset) (\<lambda>color.
          Inr (dataOffset + 4, put px py (pixel_rgb (pixelFormat c) color) c))
      else if bytesPerPixel = 3 then
        then_do (at_le24 data dataOffset) (\<lambda>color.
          Inr (dataOffset + 3, put px py (pixel_rgb (pixelFormat c) color) c))
      else if bytesPerPixel = 2 then
        then_do (at_le16 data dataOffset) (\<lambda>color.
          Inr (dataOffset + 2, put px py (pixel_rgb (pixelFormat c) color) c))
      else if bytesPerPixel = 1 then
        then_do (at_u8 data dataOffset) (\<lambda>color.
          Inr (dataOffset + 1, put px py (pixel_rgb (pixelFormat c) color) c))
      else Inr (dataOffset, put px py (pixel_rgb (pixelFormat c) 0) c))"

text \<open>
  One index of the packed palette data. The state is \<open>byteOffset\<close>, \<open>bitOffset\<close>
  and the client.
\<close>

definition zrle_packed_pixel :: "Rectangle \<Rightarrow> byte list \<Rightarrow> nat \<Rightarrow> quint32 list \<Rightarrow> nat \<Rightarrow> nat \<Rightarrow> nat \<Rightarrow> nat \<Rightarrow> nat \<Rightarrow> nat \<times> nat \<times> 'z Private \<Rightarrow> fault + (nat \<times> nat \<times> 'z Private)" where
  "zrle_packed_pixel rect data dataOffset palette bitsPerPaletteEntry tx ty y x s =
     (case s of (byteOffset, bitOffset, c) \<Rightarrow>
      then_do (at data (dataOffset + byteOffset)) (\<lambda>b.
        let index =
              (if bitsPerPaletteEntry = 1 then unat (drop_bit (7 - bitOffset) b AND 0x01)
               else if bitsPerPaletteEntry = 2 then unat (drop_bit (6 - bitOffset) b AND 0x03)
               else if bitsPerPaletteEntry = 4 then unat (drop_bit (4 - bitOffset) b AND 0x0f)
               else unat (b AND 0x7f));
            bitOffset1 = (if bitsPerPaletteEntry < 8 then bitOffset + bitsPerPaletteEntry else bitOffset);
            byteOffset2 = (if bitsPerPaletteEntry < 8
                           then (if bitOffset1 = 8 then byteOffset + 1 else byteOffset)
                           else byteOffset + 1);
            bitOffset2 = (if bitsPerPaletteEntry < 8 \<and> bitOffset1 = 8 then 0 else bitOffset1);
            c1 = (if index < length palette
                  then put (unat (rect_x rect) + tx + x) (unat (rect_y rect) + ty + y)
                           (palette ! index) c
                  else c)
        in Inr (byteOffset2, bitOffset2, c1)))"

definition zrle_packed_row :: "Rectangle \<Rightarrow> byte list \<Rightarrow> nat \<Rightarrow> quint32 list \<Rightarrow> nat \<Rightarrow> nat \<Rightarrow> nat \<Rightarrow> nat \<Rightarrow> nat \<Rightarrow> nat \<times> nat \<times> 'z Private \<Rightarrow> fault + (nat \<times> nat \<times> 'z Private)" where
  "zrle_packed_row rect data dataOffset palette bitsPerPaletteEntry tx ty tw y s =
     (case s of (byteOffset, bitOffset, c) \<Rightarrow>
      then_do (for_all [0..<tw]
                 (zrle_packed_pixel rect data dataOffset palette bitsPerPaletteEntry tx ty y)
                 (byteOffset, 0, c))
        (\<lambda>(byteOffset1, bitOffset1, c1).
          if bitsPerPaletteEntry < 8 \<and> bitOffset1 > 0
          then Inr (byteOffset1 + 1, 0, c1)
          else Inr (byteOffset1, bitOffset1, c1)))"

text \<open>The palette of a packed tile: \<open>paletteSize\<close> colour words of four bytes each.\<close>

definition zrle_palette :: "PixelFormat \<Rightarrow> byte list \<Rightarrow> nat \<Rightarrow> nat \<Rightarrow> quint32 list" where
  "zrle_palette pf data dataOffset paletteSize =
     map (\<lambda>i. pixel_rgb pf
                 (le32 (data ! (dataOffset + 4 * i)) (data ! (dataOffset + 4 * i + 1))
                       (data ! (dataOffset + 4 * i + 2)) (data ! (dataOffset + 4 * i + 3))))
         [0..<paletteSize]"

text \<open>
  One tile. The state is \<open>dataOffset\<close> and the client; the answer \<open>True\<close> is the
  \<open>return\<close> of the truncated-data case, and every \<open>continue\<close> answers \<open>False\<close>
  with the offset where it stands.
\<close>

definition zrle_tile :: "Rectangle \<Rightarrow> byte list \<Rightarrow> nat \<Rightarrow> nat \<Rightarrow> nat \<times> 'z Private \<Rightarrow> fault + (bool \<times> nat \<times> 'z Private)" where
  "zrle_tile rect data ty tx s =
     (case s of (dataOffset, c) \<Rightarrow>
      let th = min 64 (unat (rect_h rect) - ty);
          tw = min 64 (unat (rect_w rect) - tx);
          bytesPerPixel = unat (bitsPerPixel (pixelFormat c)) div 8
      in
      if dataOffset \<ge> length data
      then Inr (True, dataOffset, emit (Warned ''ZRLE data truncated (subencoding)'') c)
      else
        let subencoding = data ! dataOffset; off1 = dataOffset + 1 in
        if subencoding = 0 then
          (if off1 + tw * th * 4 > length data
           then Inr (False, off1, emit (Warned ''ZRLE data truncated (raw data)'') c)
           else then_do (for_all [0..<th]
                           (\<lambda>y. for_all [0..<tw] (zrle_raw_pixel rect data tx ty y)) (off1, c))
                  (\<lambda>s'. Inr (False, s')))
        else if subencoding = 1 then
          (if off1 + bytesPerPixel > length data
           then Inr (False, off1, emit (Warned ''ZRLE data truncated (solid color)'') c)
           else then_do (at_le32 data off1) (\<lambda>color.
                  Inr (False, off1 + 4,
                       c\<lparr>image := fill_rect (unat (rect_x rect) + tx) (unat (rect_y rect) + ty) tw th
                                     (pixel_rgb (pixelFormat c) color) (image c)\<rparr>)))
        else if subencoding = 2 then
          (if off1 \<ge> length data
           then Inr (False, off1, emit (Warned ''ZRLE data truncated (palette size)'') c)
           else
             let paletteSize = unat (data ! off1); off2 = off1 + 1 in
             if paletteSize = 0 \<or> off2 + paletteSize * 4 > length data
             then Inr (False, off2, emit (Warned ''ZRLE data truncated (palette colors)'') c)
             else
               let palette = zrle_palette (pixelFormat c) data off2 paletteSize;
                   off3 = off2 + 4 * paletteSize;
                   bitsPerPaletteEntry =
                     (if paletteSize \<le> 2 then 1
                      else if paletteSize \<le> 4 then 2
                      else if paletteSize \<le> 16 then 4
                      else 8);
                   bytesPerLine = (tw * bitsPerPaletteEntry + 7) div 8;
                   totalBytes = bytesPerLine * th
               in
               if off3 + totalBytes > length data
               then Inr (False, off3, emit (Warned ''ZRLE data truncated (packed data)'') c)
               else then_do (for_all [0..<th]
                               (zrle_packed_row rect data off3 palette bitsPerPaletteEntry tx ty tw)
                               (0, 0, c))
                      (\<lambda>(byteOffset, bitOffset, c1). Inr (False, off3 + totalBytes, c1)))
        else if subencoding = 3 then
          Inr (False, off1, emit (Warned ''RLE Palette encoding (type 3) not fully implemented'') c)
        else
          Inr (False, off1, emit (Warned ''Plain RLE encoding (types 8-127) not implemented'') c))"

text \<open>The loop over the tiles of a rectangle, on the decompressed data.\<close>

definition zrle_tiles :: "Rectangle \<Rightarrow> byte list \<Rightarrow> 'z Private \<Rightarrow> fault + 'z Private" where
  "zrle_tiles rect uncompressedData c =
     then_do (for_each (tile_origins (unat (rect_h rect)) 64)
                (\<lambda>ty. for_each (tile_origins (unat (rect_w rect)) 64)
                        (zrle_tile rect uncompressedData ty))
                (0, c))
       (\<lambda>(returned, dataOffset, c'). Inr c')"

definition handleZRLEEncoding :: "'z extlib \<Rightarrow> Rectangle \<Rightarrow> 'z Private \<Rightarrow> fault + 'z Private" where
  "handleZRLEEncoding lib rect c =
     (if bytesAvailable c < 4 then Inr c
      else then_do (read_be32 c) (\<lambda>(zlibDataLength, c1).
        if zlibDataLength = 0 then Inr c1
        else
          case socket_read (unat zlibDataLength) (zrle_wait (unat zlibDataLength) c1) of
            (compressedData, c2) \<Rightarrow>
              let uncompressedData = qUncompress lib compressedData in
              if uncompressedData = []
              then Inr (framebufferUpdateRequest True QRect_default
                          (emit (Warned ''Failed to decompress ZRLE data, requesting new update'') c2))
              else zrle_tiles rect uncompressedData c2))"

section \<open>Tight encoding\<close>

text \<open>
  \<open>if (socket->bytesAvailable() < n) socket->waitForReadyRead();\<close> One wait, whose
  result is not looked at.
\<close>

definition wait_once_if_short :: "nat \<Rightarrow> 'z Private \<Rightarrow> 'z Private" where
  "wait_once_if_short n c = (if bytesAvailable c < n then snd (waitForReadyRead c) else c)"

text \<open>
  The wait for one byte with a timeout of a second: on a timeout the decoder logs the
  warning, sends \<open>framebufferUpdateRequest()\<close> and returns (the answer \<open>False\<close>).
\<close>

definition tight_wait_byte :: "string \<Rightarrow> 'z Private \<Rightarrow> bool \<times> 'z Private" where
  "tight_wait_byte msg c =
     (if bytesAvailable c < 1 then
        (case waitForReadyRead c of (ok, c') \<Rightarrow>
           if ok then (True, c')
           else (False, framebufferUpdateRequest True QRect_default (emit (Warned msg) c')))
      else (True, c))"

text \<open>
  The loop that reads \<open>length\<close> bytes of payload: each round waits once when nothing
  is available and reads what there is; a round that reads nothing fails.
\<close>

function read_payload :: "nat \<Rightarrow> byte list \<Rightarrow> 'z Private \<Rightarrow> byte list option \<times> 'z Private" where
  "read_payload n acc c =
     (if n = 0 then (Some acc, c)
      else case socket_read n (wait_once_if_short 1 c) of (bs, c1) \<Rightarrow>
        if bs = [] then (None, c1)
        else read_payload (n - length bs) (acc @ bs) c1)"
  by pat_completeness auto
termination
  by (relation "measure (\<lambda>(n, acc, c). n)") (auto simp: socket_read_def)

text \<open>\<open>QPainter::drawImage(x, y, src)\<close> onto the framebuffer, clipped to it.\<close>

definition drawImage :: "nat \<Rightarrow> nat \<Rightarrow> QImage \<Rightarrow> QImage \<Rightarrow> QImage" where
  "drawImage x0 y0 src dst =
     fold (\<lambda>y. fold (\<lambda>x. setPixel (x0 + x) (y0 + y) (pixels src (x, y))) [0..<img_width src])
          [0..<img_height src] dst"

definition handleTightJpeg :: "'z extlib \<Rightarrow> Rectangle \<Rightarrow> nat \<Rightarrow> 'z Private \<Rightarrow> bool \<times> 'z Private" where
  "handleTightJpeg lib rect dataLength c =
     (case read_payload dataLength [] c of
        (None, c1) \<Rightarrow> (False, emit (Warned ''Failed to read JPEG data for Tight encoding'') c1)
      | (Some jpegData, c1) \<Rightarrow>
          (case loadFromData lib jpegData of
             None \<Rightarrow> (False, emit (Warned ''Failed to decode JPEG data for Tight encoding'') c1)
           | Some jpegImage \<Rightarrow>
               (True, c1\<lparr>image := drawImage (unat (rect_x rect)) (unat (rect_y rect))
                                      jpegImage (image c1)\<rparr>)))"

definition decompressTightData :: "'z extlib \<Rightarrow> nat \<Rightarrow> byte list \<Rightarrow> int \<Rightarrow> 'z Private \<Rightarrow> byte list \<times> 'z Private" where
  "decompressTightData lib streamId data expectedBytes c =
     (case inflate lib (zlibStream (tightData c) streamId) data (nat expectedBytes) of
        (result, z', out) \<Rightarrow>
          let c1 = c\<lparr>tightData := (tightData c)\<lparr>zlibStream := (zlibStream (tightData c))(streamId := z')\<rparr>\<rparr>
          in if result \<noteq> Z_OK \<and> result \<noteq> Z_STREAM_END
             then ([], emit (Warned ''Zlib inflation failed with error code:'') c1)
             else (out, c1))"

text \<open>
  The length field of the JPEG path, after its first byte \<open>lenByte\<close> has been read.
\<close>

definition tight_jpeg_length :: "byte \<Rightarrow> 'z Private \<Rightarrow> fault + (nat \<times> 'z Private)" where
  "tight_jpeg_length lenByte c =
     (if lenByte AND 0x80 \<noteq> 0 then
        then_do (socket_read_u8 (wait_once_if_short 2 c)) (\<lambda>(lenMid, c1).
        then_do (socket_read_u8 c1) (\<lambda>(lenLow, c2).
          Inr (unat (push_bit 16 (ucast (lenByte AND 0x7F)) OR push_bit 8 (ucast lenMid)
                     OR (ucast lenLow :: quint32)), c2)))
      else Inr (unat lenByte, c))"

text \<open>The length field of the zlib path, chosen by bit 7 of the control byte.\<close>

definition tight_basic_length :: "byte \<Rightarrow> 'z Private \<Rightarrow> fault + (nat \<times> 'z Private)" where
  "tight_basic_length compControl c =
     (if compControl AND 0x80 = 0 then
        then_do (socket_read_u8 (wait_once_if_short 1 c)) (\<lambda>(len, c1). Inr (unat len, c1))
      else
        then_do (socket_read_u8 (wait_once_if_short 3 c)) (\<lambda>(lenHigh, c1).
        then_do (socket_read_u8 c1) (\<lambda>(lenMid, c2).
        then_do (socket_read_u8 c2) (\<lambda>(lenLow, c3).
          Inr (unat (push_bit 16 (ucast lenHigh) OR push_bit 8 (ucast lenMid)
                     OR (ucast lenLow :: quint32)), c3)))))"

text \<open>
  The reset and the initialisation of the zlib stream that the control byte selects:
  \<open>inflateEnd\<close> when bit 7 is set and the stream is active, then \<open>inflateInit\<close> when
  the stream is not active.
\<close>

definition tight_select_stream :: "'z extlib \<Rightarrow> byte \<Rightarrow> 'z TightData \<Rightarrow> 'z TightData" where
  "tight_select_stream lib compControl td =
     (let resetStream = (compControl AND 0x80 \<noteq> 0);
          streamId = unat (compControl AND 0x03);
          td1 = (if resetStream \<and> zlibStreamActive td streamId
                 then td\<lparr>zlibStreamActive := (zlibStreamActive td)(streamId := False)\<rparr>
                 else td)
      in if \<not> zlibStreamActive td1 streamId
         then td1\<lparr>zlibStream := (zlibStream td1)(streamId := inflateInit lib),
                  zlibStreamActive := (zlibStreamActive td1)(streamId := True)\<rparr>
         else td1)"

text \<open>
  One pixel of the decompressed data, read in the byte order of the host (little
  endian). The offset is \<open>(y * rect.w + x) * (bitsPerPixel / 8)\<close>; nothing checks it
  against the size of the data.
\<close>

definition tight_pixel :: "Rectangle \<Rightarrow> byte list \<Rightarrow> nat \<Rightarrow> nat \<Rightarrow> 'z Private \<Rightarrow> fault + 'z Private" where
  "tight_pixel rect data y x c =
     (let bpp = bitsPerPixel (pixelFormat c);
          offset = (y * unat (rect_w rect) + x) * (unat bpp div 8)
      in then_do (if bpp = 32 then at_le32 data offset
                  else if bpp = 24 then at_le24 data offset
                  else if bpp = 16 then at_le16 data offset
                  else if bpp = 8 then at_u8 data offset
                  else Inr 0) (\<lambda>color.
           Inr (put (unat (rect_x rect) + x) (unat (rect_y rect) + y)
                    (pixel_rgb (pixelFormat c) color) c)))"

definition handleTightEncoding :: "'z extlib \<Rightarrow> Rectangle \<Rightarrow> 'z Private \<Rightarrow> fault + 'z Private" where
  "handleTightEncoding lib rect c =
     (case tight_wait_byte ''Timeout waiting for Tight compression control byte'' c of
        (False, c1) \<Rightarrow> Inr c1
      | (True, c1) \<Rightarrow>
        case socket_read_u8_init 0 c1 of (compControl, c2) \<Rightarrow>
        let streamId = unat (compControl AND 0x03) in
        if compControl AND 0x0F = 0x09 then
          (case tight_wait_byte ''Timeout waiting for JPEG length byte'' c2 of
             (False, c3) \<Rightarrow> Inr c3
           | (True, c3) \<Rightarrow>
             case socket_read_u8_init 0 c3 of (lenByte, c4) \<Rightarrow>
             then_do (tight_jpeg_length lenByte c4) (\<lambda>(len, c5).
               case handleTightJpeg lib rect len c5 of
                 (ok, c6) \<Rightarrow>
                   if ok then Inr c6 else Inr (framebufferUpdateRequest True QRect_default c6)))
        else
          let c3 = c2\<lparr>tightData := tight_select_stream lib compControl (tightData c2)\<rparr> in
          then_do (tight_basic_length compControl c3) (\<lambda>(len, c4).
            case read_payload len [] c4 of
              (None, c5) \<Rightarrow>
                Inr (framebufferUpdateRequest True QRect_default
                       (emit (Warned ''Failed to read compressed data for Tight encoding'') c5))
            | (Some compressedData, c5) \<Rightarrow>
                let expectedBytes =
                      int32 (uint (rect_w rect) * uint (rect_h rect)
                             * (uint (bitsPerPixel (pixelFormat c5)) div 8))
                in case decompressTightData lib streamId compressedData expectedBytes c5 of
                  (uncompressedData, c6) \<Rightarrow>
                    if uncompressedData = []
                    then Inr (framebufferUpdateRequest True QRect_default
                                (emit (Warned ''Failed to decompress Tight encoded data, requesting new update'') c6))
                    else for_all [0..<unat (rect_h rect)]
                           (\<lambda>y. for_all [0..<unat (rect_w rect)] (tight_pixel rect uncompressedData y))
                           c6))"

section \<open>Server to client messages\<close>

definition read_rectangle :: "'z Private \<Rightarrow> fault + (Rectangle \<times> 'z Private)" where
  "read_rectangle c =
     (case read_T 8 c of
        ([b0, b1, b2, b3, b4, b5, b6, b7], c') \<Rightarrow>
          Inr (\<lparr>rect_x = be16 b0 b1, rect_y = be16 b2 b3,
                rect_w = be16 b4 b5, rect_h = be16 b6 b7\<rparr>, c')
      | _ \<Rightarrow> Inl UninitRead)"

text \<open>
  One round of the rectangle loop of \<open>framebufferUpdate\<close>. The answer \<open>True\<close> is the
  \<open>return\<close> taken when fewer than 12 bytes are available; an unknown encoding logs
  a warning and goes to the next round (\<open>continue\<close>) without the signal.
\<close>

definition update_rectangle :: "'z extlib \<Rightarrow> nat \<Rightarrow> 'z Private \<Rightarrow> fault + (bool \<times> 'z Private)" where
  "update_rectangle lib i c =
     (if bytesAvailable c < 12 then Inr (True, c)
      else
        then_do (read_rectangle c) (\<lambda>(rect, c1).
        then_do (read_be32 c1) (\<lambda>(encodingType, c2).
          let signal = (\<lambda>c'. Inr (False, emit (ImageChanged (unat (rect_x rect)) (unat (rect_y rect))
                                                           (unat (rect_w rect)) (unat (rect_h rect))) c'))
          in
          if sint encodingType = ZRLE then then_do (handleZRLEEncoding lib rect c2) signal
          else if sint encodingType = Tight then then_do (handleTightEncoding lib rect c2) signal
          else if sint encodingType = Hextile then then_do (handleHextileEncoding rect c2) signal
          else if sint encodingType = RawEncoding then then_do (handleRawEncoding rect c2) signal
          else Inr (False, emit (Warned ''Unsupported encoding:'') c2))))"

definition framebufferUpdate :: "'z extlib \<Rightarrow> 'z Private \<Rightarrow> fault + 'z Private" where
  "framebufferUpdate lib c =
     (if bytesAvailable c < 3 then Inr c
      else case socket_read 1 c of (padding, c1) \<Rightarrow>
        then_do (read_be16 c1) (\<lambda>(numberOfRectangles, c2).
        then_do (for_each [0..<unat numberOfRectangles] (update_rectangle lib) c2) (\<lambda>(returned, c3).
          if returned then Inr c3
          else Inr (framebufferUpdateRequest True QRect_default c3))))"

definition parseServerMessages :: "'z extlib \<Rightarrow> 'z Private \<Rightarrow> fault + 'z Private" where
  "parseServerMessages lib c =
     (if bytesAvailable c < 1 then Inr c
      else case read_u8_init 0 c of (messageType, c1) \<Rightarrow>
        if messageType = 0x00 then framebufferUpdate lib c1
        else Inr (emit (Warned ''Unknown message type:'') c1))"

text \<open>
  \<open>QVncClient::Private::read()\<close>, run at every \<open>readyRead\<close>: the dispatch on the
  handshaking state. In the states without a parser everything available is read and
  dropped.
\<close>

definition read :: "'z extlib \<Rightarrow> 'z Private \<Rightarrow> fault + 'z Private" where
  "read lib c =
     (case state c of
        ProtocolVersionState \<Rightarrow> Inr (parseProtocolVersion c)
      | SecurityState \<Rightarrow> parseSecurity c
      | ServerInitState \<Rightarrow> parserServerInit c
      | WaitingState \<Rightarrow> parseServerMessages lib c
      | _ \<Rightarrow> Inr (snd (socket_read (bytesAvailable c) c)))"

section \<open>Input events\<close>

text \<open>
  What \<open>keyEvent\<close> looks at in a \<open>QKeyEvent\<close>: whether it is a key press, the key
  and the text (UTF-16 code units).
\<close>

record QKeyEvent =
  isKeyPress :: bool
  key :: int
  text_of :: "16 word list"

text \<open>
  \<open>code\<close> is a local \<open>quint32_be\<close> that is declared without a value; \<open>code0\<close> is
  whatever it holds at that point.
\<close>

definition keyEvent :: "quint32 \<Rightarrow> QKeyEvent \<Rightarrow> 'z Private \<Rightarrow> 'z Private" where
  "keyEvent code0 e c =
     (if \<not> present (socket c) then c
      else
        let c1 = write_T [0x04] c;
            c2 = write_T [if isKeyPress e then 1 else 0] c1;
            c3 = socket_write (ascii ''  '') c2;
            code = (case keyMap c3 (key e) of
                      Some k \<Rightarrow> k
                    | None \<Rightarrow> (case text_of e of
                                 ch # rest \<Rightarrow> ucast ch
                               | [] \<Rightarrow> code0))
        in write_T (bytes_be32 code) c3)"

section \<open>Example values\<close>

text \<open>
  A client as it stands when the socket has just connected, with the given bytes
  available and the given chunks still to arrive.
\<close>

definition no_streams :: "bool TightData" where
  "no_streams =
     \<lparr>zlibStream = (\<lambda>i. False), zlibStreamActive = (\<lambda>i. False),
      jpegQuality = 75, compressionLevel = 6\<rparr>"

definition zero_format :: PixelFormat where
  "zero_format =
     \<lparr>bitsPerPixel = 0, depth = 0, bigEndianFlag = 0, trueColourFlag = 0,
      redMax = 0, greenMax = 0, blueMax = 0, redShift = 0, greenShift = 0, blueShift = 0,
      padding1 = 0, padding2 = 0, padding3 = 0\<rparr>"

definition fresh_client :: "byte list \<Rightarrow> byte list list \<Rightarrow> bool Private" where
  "fresh_client bs chunks =
     \<lparr>state = ProtocolVersionState, pixelFormat = zero_format, keyMap = Map.empty,
      socket = \<lparr>present = True, connected = True, avail = bs, pending = chunks\<rparr>,
      tightData = no_streams, protocolVersion = ProtocolVersionUnknown,
      securityType = SecurityTypeUnknwon, image = QImage_null,
      frameBufferWidth = 0, frameBufferHeight = 0, trace = []\<rparr>"

section \<open>What was written, and what the specification describes\<close>

text \<open>The bytes that a trace puts on the wire, in order.\<close>

fun wire :: "event list \<Rightarrow> byte list" where
  "wire [] = []"
| "wire (Wrote bs # es) = bs @ wire es"
| "wire (e # es) = wire es"

text \<open>The signals \<open>imageChanged\<close> of a trace, and its warnings.\<close>

fun is_signal :: "event \<Rightarrow> bool" where
  "is_signal (ImageChanged px py w h) = True"
| "is_signal e = False"

fun is_warning :: "event \<Rightarrow> bool" where
  "is_warning (Warned msg) = True"
| "is_warning e = False"

text \<open>
  The ten bytes of a FramebufferUpdateRequest for the whole framebuffer:
  type 3, the incremental flag, x = 0, y = 0, then width and height.
\<close>

definition request_bytes :: "bool \<Rightarrow> nat \<Rightarrow> nat \<Rightarrow> byte list" where
  "request_bytes incremental w h =
     [0x03, if incremental then 1 else 0]
     @ rectangle_bytes \<lparr>rect_x = 0, rect_y = 0, rect_w = word_of_nat w, rect_h = word_of_nat h\<rparr>"

text \<open>
  The length field of Tight as the specification describes it, on the bytes that
  follow: one to three bytes, each with a continuation bit. The answer is the length
  and the bytes that remain.
\<close>

fun spec_tight_length :: "byte list \<Rightarrow> (nat \<times> byte list) option" where
  "spec_tight_length [] = None"
| "spec_tight_length (b0 # bs) =
     (if b0 AND 0x80 = 0 then Some (unat b0, bs)
      else case bs of
        [] \<Rightarrow> None
      | b1 # bs1 \<Rightarrow>
          if b1 AND 0x80 = 0
          then Some (unat ((ucast (b0 AND 0x7F) :: quint32) OR push_bit 7 (ucast b1)), bs1)
          else case bs1 of
            [] \<Rightarrow> None
          | b2 # bs2 \<Rightarrow>
              Some (unat ((ucast (b0 AND 0x7F) :: quint32) OR push_bit 7 (ucast (b1 AND 0x7F))
                          OR push_bit 14 (ucast b2)), bs2))"

text \<open>What a length decoder of the model answered: the length and the bytes that remain.\<close>

definition length_and_rest :: "fault + (nat \<times> 'z Private) \<Rightarrow> (nat \<times> byte list) option" where
  "length_and_rest r = (case r of Inl e \<Rightarrow> None | Inr (n, c) \<Rightarrow> Some (n, avail (socket c)))"

text \<open>
  The pixel word of Raw as the specification describes it: little endian when the
  big-endian flag of the format is 0, big endian otherwise.
\<close>

definition spec_raw_word :: "PixelFormat \<Rightarrow> byte \<Rightarrow> byte \<Rightarrow> byte \<Rightarrow> byte \<Rightarrow> quint32" where
  "spec_raw_word pf b0 b1 b2 b3 =
     (if bigEndianFlag pf = 0 then le32 b0 b1 b2 b3 else be32 b0 b1 b2 b3)"


section \<open>An instance of the libraries\<close>

text \<open>
  zlib on the simplest streams (RFC 1950 and RFC 1951): a two-byte header, then stored
  blocks, each a byte with the final bit and block type 0, the length and its
  complement as little-endian 16-bit values, and the bytes themselves. The state of a
  stream says whether its header has been consumed. Chunks end at block boundaries.
  Block types other than stored are outside this instance and are reported as a data
  error.
\<close>

definition Z_DATA_ERROR :: int where
  "Z_DATA_ERROR = - 3"

definition zlib_header_ok :: "byte \<Rightarrow> byte \<Rightarrow> bool" where
  "zlib_header_ok cmf flg =
     (cmf AND 0x0f = 8 \<and> drop_bit 4 cmf \<le> 7 \<and> flg AND 0x20 = 0
      \<and> (256 * uint cmf + uint flg) mod 31 = 0)"

function stored_blocks :: "byte list \<Rightarrow> (bool \<times> byte list \<times> byte list) option" where
  "stored_blocks [] = Some (False, [], [])"
| "stored_blocks (h0 # bs) =
     (if h0 AND 0x06 \<noteq> 0 then None
      else case bs of
        l0 # l1 # n0 # n1 # rest \<Rightarrow>
          let len = unat l0 + 256 * unat l1 in
          if n0 \<noteq> NOT l0 \<or> n1 \<noteq> NOT l1 \<or> length rest < len then None
          else if h0 AND 0x01 \<noteq> 0 then Some (True, take len rest, drop len rest)
          else (case stored_blocks (drop len rest) of
                  None \<Rightarrow> None
                | Some (final, out, rest') \<Rightarrow> Some (final, take len rest @ out, rest'))
      | _ \<Rightarrow> None)"
  by pat_completeness auto
termination
  by (relation "measure length") auto

definition inflate_stored :: "bool \<Rightarrow> byte list \<Rightarrow> nat \<Rightarrow> int \<times> bool \<times> byte list" where
  "inflate_stored header_done input capacity =
     (let blocks = (\<lambda>bs. case stored_blocks bs of
                            None \<Rightarrow> (Z_DATA_ERROR, True, [])
                          | Some (final, out, rest) \<Rightarrow>
                              (if final then Z_STREAM_END else Z_OK, True, take capacity out))
      in if header_done then blocks input
         else case input of
           cmf # flg # bs \<Rightarrow>
             if zlib_header_ok cmf flg then blocks bs else (Z_DATA_ERROR, False, [])
         | _ \<Rightarrow> (Z_OK, False, []))"

definition adler32 :: "byte list \<Rightarrow> quint32" where
  "adler32 bs =
     (case fold (\<lambda>b (s1, s2). ((s1 + uint b) mod 65521, (s2 + (s1 + uint b) mod 65521) mod 65521))
                bs (1, 0) of
        (s1, s2) \<Rightarrow> word_of_int (s2 * 65536 + s1))"

text \<open>
  \<open>qUncompress\<close>: the first four bytes are the expected size, the rest must be one
  whole zlib stream, from its header to the checksum after the final block.
\<close>

definition qUncompress_stored :: "byte list \<Rightarrow> byte list" where
  "qUncompress_stored data =
     (case drop 4 data of
        cmf # flg # bs \<Rightarrow>
          if zlib_header_ok cmf flg then
            (case stored_blocks bs of
               Some (True, out, rest) \<Rightarrow>
                 if take 4 rest = bytes_be32 (adler32 out) then out else []
             | _ \<Rightarrow> [])
          else []
      | _ \<Rightarrow> [])"

text \<open>No input of the examples is a JPEG image.\<close>

definition stored_lib :: "bool extlib" where
  "stored_lib =
     \<lparr>inflateInit = False, inflate = inflate_stored,
      qUncompress = qUncompress_stored, loadFromData = (\<lambda>bs. None)\<rparr>"

text \<open>
  Four streams that are active and have consumed their zlib header.
\<close>

definition used_streams :: "bool TightData" where
  "used_streams =
     \<lparr>zlibStream = (\<lambda>i. True), zlibStreamActive = (\<lambda>i. True),
      jpegQuality = 75, compressionLevel = 6\<rparr>"

text \<open>
  A pixel format of 32 bits with red, green and blue of 8 bits at shifts 16, 8 and 0,
  with the given big-endian flag, and a format of 16 bits (5, 6 and 5 bits).
\<close>

definition rgb32_format :: "byte \<Rightarrow> PixelFormat" where
  "rgb32_format flag =
     \<lparr>bitsPerPixel = 32, depth = 24, bigEndianFlag = flag, trueColourFlag = 1,
      redMax = 255, greenMax = 255, blueMax = 255,
      redShift = 16, greenShift = 8, blueShift = 0,
      padding1 = 0, padding2 = 0, padding3 = 0\<rparr>"

definition rgb16_format :: PixelFormat where
  "rgb16_format =
     \<lparr>bitsPerPixel = 16, depth = 16, bigEndianFlag = 0, trueColourFlag = 1,
      redMax = 31, greenMax = 63, blueMax = 31,
      redShift = 11, greenShift = 5, blueShift = 0,
      padding1 = 0, padding2 = 0, padding3 = 0\<rparr>"

text \<open>
  A client after the handshake, in \<open>WaitingState\<close>, with a white framebuffer of the
  given size, the given pixel format, bytes available and chunks to come.
\<close>

definition waiting_client :: "PixelFormat \<Rightarrow> nat \<Rightarrow> nat \<Rightarrow> byte list \<Rightarrow> byte list list \<Rightarrow> bool Private" where
  "waiting_client pf w h bs chunks =
     \<lparr>state = WaitingState, pixelFormat = pf, keyMap = Map.empty,
      socket = \<lparr>present = True, connected = True, avail = bs, pending = chunks\<rparr>,
      tightData = no_streams, protocolVersion = ProtocolVersion33,
      securityType = SecurityTypeNone, image = fill white (QImage_new w h),
      frameBufferWidth = w, frameBufferHeight = h, trace = []\<rparr>"


text \<open>
  The ServerInit message of a framebuffer of 4 by 4 pixels with no name.
\<close>

definition server_init_4x4 :: "byte list" where
  "server_init_4x4 =
     [0, 4, 0, 4] @ pixelFormat_bytes (rgb32_format 0) @ [0, 0, 0, 0]"



definition raw_update :: "byte list" where
  "raw_update =
     [0, 0, 1,
      0, 0, 0, 0, 0, 1, 0, 2,  0, 0, 0, 0,  0, 0, 255, 0,  255, 0, 0, 0]"

section \<open>What a decoder leaves alone\<close>

text \<open>
  \<open>image_frame a b\<close>: the image \<open>b\<close> has the size of \<open>a\<close> and the same pixels as
  \<open>a\<close> at every position outside that size.
\<close>

definition image_frame :: "QImage \<Rightarrow> QImage \<Rightarrow> bool" where
  "image_frame a b \<longleftrightarrow>
     img_width b = img_width a \<and> img_height b = img_height a
     \<and> (\<forall>px py. \<not> (px < img_width a \<and> py < img_height a) \<longrightarrow>
            pixels b (px, py) = pixels a (px, py))"

text \<open>
  \<open>same_session c c'\<close>: between \<open>c\<close> and \<open>c'\<close> the socket is the same object in the
  same connection state, the handshake state, the negotiated values, the pixel format
  and the framebuffer size are the same, and the image is framed as above.
\<close>

definition same_session :: "'z Private \<Rightarrow> 'z Private \<Rightarrow> bool" where
  "same_session c c' \<longleftrightarrow>
     present (socket c') = present (socket c)
     \<and> connected (socket c') = connected (socket c)
     \<and> state c' = state c
     \<and> protocolVersion c' = protocolVersion c
     \<and> securityType c' = securityType c
     \<and> keyMap c' = keyMap c
     \<and> pixelFormat c' = pixelFormat c
     \<and> frameBufferWidth c' = frameBufferWidth c
     \<and> frameBufferHeight c' = frameBufferHeight c
     \<and> image_frame (image c) (image c')"

text \<open>
  \<open>advances G c c'\<close>: the same session, and the trace has grown by events that
  satisfy \<open>G\<close>.
\<close>

definition advances :: "(event list \<Rightarrow> bool) \<Rightarrow> 'z Private \<Rightarrow> 'z Private \<Rightarrow> bool" where
  "advances G c c' \<longleftrightarrow> same_session c c' \<and> (\<exists>ws. trace c' = trace c @ ws \<and> G ws)"

definition monoidal :: "(event list \<Rightarrow> bool) \<Rightarrow> bool" where
  "monoidal G \<longleftrightarrow> G [] \<and> (\<forall>a b. G a \<longrightarrow> G b \<longrightarrow> G (a @ b))"

definition nothing :: "event list \<Rightarrow> bool" where
  "nothing ws \<longleftrightarrow> ws = []"

text \<open>The bytes written are a number of copies of \<open>rb\<close>, and nothing else.\<close>

definition requests_only :: "byte list \<Rightarrow> event list \<Rightarrow> bool" where
  "requests_only rb ws \<longleftrightarrow> (\<exists>k. wire ws = concat (replicate k rb))"

text \<open>
  No signal; nothing at all unless there is a warning; and the bytes written are
  copies of \<open>rb\<close>.
\<close>

definition quiet :: "byte list \<Rightarrow> event list \<Rightarrow> bool" where
  "quiet rb ws \<longleftrightarrow>
     (\<forall>e \<in> set ws. \<not> is_signal e)
     \<and> ((\<forall>e \<in> set ws. \<not> is_warning e) \<longrightarrow> ws = [])
     \<and> requests_only rb ws"

text \<open>The incremental request for the whole framebuffer of a client.\<close>

definition req :: "'z Private \<Rightarrow> byte list" where
  "req c = request_bytes True (frameBufferWidth c) (frameBufferHeight c)"

text \<open>The three writes of that request, which reach the socket when it is valid.\<close>

definition request_events :: "'z Private \<Rightarrow> event list" where
  "request_events c =
     (if isValid c
      then [Wrote [0x03], Wrote [1],
            Wrote (rectangle_bytes \<lparr>rect_x = 0, rect_y = 0,
                                    rect_w = word_of_nat (frameBufferWidth c),
                                    rect_h = word_of_nat (frameBufferHeight c)\<rparr>)]
      else [])"

section \<open>The rectangles of an update on the wire\<close>

text \<open>
  A rectangle as the server sends it: the rectangle, the 32-bit encoding tag, and the
  bytes of its payload. \<open>frame_bytes\<close> is its layout on the wire, and the bytes of a
  FramebufferUpdate after the message type are a padding byte, the 16-bit number of
  rectangles and the rectangles one after the other.
\<close>

type_synonym frame = "Rectangle \<times> quint32 \<times> byte list"

definition frame_bytes :: "frame \<Rightarrow> byte list" where
  "frame_bytes f =
     (case f of (rect, enc, payload) \<Rightarrow> rectangle_bytes rect @ bytes_be32 enc @ payload)"

definition tag_of :: "frame \<Rightarrow> int" where
  "tag_of f = (case f of (rect, enc, payload) \<Rightarrow> sint enc)"

definition signal_of :: "frame \<Rightarrow> event" where
  "signal_of f =
     (case f of (rect, enc, payload) \<Rightarrow>
        ImageChanged (unat (rect_x rect)) (unat (rect_y rect))
                     (unat (rect_w rect)) (unat (rect_h rect)))"

definition known_tag :: "int \<Rightarrow> bool" where
  "known_tag tag \<longleftrightarrow> tag = ZRLE \<or> tag = Tight \<or> tag = Hextile \<or> tag = RawEncoding"

text \<open>
  All the bytes that a client has still to read: those available, then those of the
  chunks that the waits will deliver.
\<close>

definition stream :: "'z Private \<Rightarrow> byte list" where
  "stream c = avail (socket c) @ concat (pending (socket c))"

text \<open>
  The engine is in step with the rectangles \<open>fs\<close>: every round of the rectangle loop
  goes on to the next round having taken from the stream exactly the bytes of its
  rectangle.
\<close>

fun in_step :: "'z extlib \<Rightarrow> frame list \<Rightarrow> 'z Private \<Rightarrow> bool" where
  "in_step lib [] c = True"
| "in_step lib (f # fs) c =
     (case update_rectangle lib 0 c of
        Inr (False, c') \<Rightarrow>
          stream c' = drop (length (frame_bytes f)) (stream c) \<and> in_step lib fs c'
      | _ \<Rightarrow> False)"



section \<open>Rectangles that the engine cannot decode\<close>

text \<open>
  The data of a ZRLE rectangle whose payload is a length that is not zero and as many
  bytes, and the rectangles of one tile (at most 64 by 64 pixels, not empty).
\<close>

definition zrle_data :: "frame \<Rightarrow> byte list option" where
  "zrle_data f =
     (case f of (rect, enc, payload) \<Rightarrow>
        if sint enc = ZRLE then
          (case payload of
             l0 # l1 # l2 # l3 # data \<Rightarrow>
               if unat (be32 l0 l1 l2 l3) = length data \<and> data \<noteq> [] then Some data else None
           | _ \<Rightarrow> None)
        else None)"

definition one_tile :: "Rectangle \<Rightarrow> bool" where
  "one_tile rect \<longleftrightarrow>
     0 < rect_w rect \<and> rect_w rect \<le> 64 \<and> 0 < rect_h rect \<and> rect_h rect \<le> 64"

text \<open>
  A table of rectangles that cannot be decoded, with the warning that the engine logs
  for each and whether it sends a request of its own:
  \<^item> an encoding tag that the engine does not know, sent without payload;
  \<^item> ZRLE data that \<open>qUncompress\<close> cannot decompress;
  \<^item> ZRLE data for one tile that decompresses to a raw tile with too few bytes;
  \<^item> ZRLE data for one tile that decompresses to a tile of a sub-encoding other than
    0, 1 and 2;
  \<^item> a Tight rectangle of the JPEG kind, with a length of one byte, whose data
    \<open>loadFromData\<close> cannot decode.

  Every other rectangle is outside the table.
\<close>

definition failure_of :: "'z extlib \<Rightarrow> frame \<Rightarrow> (string \<times> bool) option" where
  "failure_of lib f =
     (case f of (rect, enc, payload) \<Rightarrow>
        if \<not> known_tag (sint enc) then
          (if payload = [] then Some (''Unsupported encoding:'', False) else None)
        else if sint enc = ZRLE then
          (case zrle_data f of
             None \<Rightarrow> None
           | Some data \<Rightarrow>
               let out = qUncompress lib data in
               if out = []
               then Some (''Failed to decompress ZRLE data, requesting new update'', True)
               else if \<not> one_tile rect then None
               else if out ! 0 = 0 then
                 (if length out < 1 + unat (rect_w rect) * unat (rect_h rect) * 4
                  then Some (''ZRLE data truncated (raw data)'', False) else None)
               else if out ! 0 = 1 \<or> out ! 0 = 2 then None
               else if out ! 0 = 3
               then Some (''RLE Palette encoding (type 3) not fully implemented'', False)
               else Some (''Plain RLE encoding (types 8-127) not implemented'', False))
        else if sint enc = Tight then
          (case payload of
             compControl # lenByte # data \<Rightarrow>
               if compControl AND 0x0F = 0x09 \<and> lenByte AND 0x80 = 0
                  \<and> unat lenByte = length data \<and> loadFromData lib data = None
               then Some (''Failed to decode JPEG data for Tight encoding'', True)
               else None
           | _ \<Rightarrow> None)
        else None)"

definition undecodable :: "'z extlib \<Rightarrow> frame \<Rightarrow> bool" where
  "undecodable lib f \<longleftrightarrow> failure_of lib f \<noteq> None"

text \<open>
  What the engine does on a rectangle of the table: the warning; the request for an
  update, where the table says so; and the signal of the rectangle, unless the tag is
  unknown.
\<close>

definition recovery_events :: "'z extlib \<Rightarrow> 'z Private \<Rightarrow> frame \<Rightarrow> event list" where
  "recovery_events lib c f =
     (case failure_of lib f of
        None \<Rightarrow> []
      | Some (msg, requested) \<Rightarrow>
          [Warned msg]
          @ (if requested then request_events c else [])
          @ (if known_tag (tag_of f) then [signal_of f] else []))"





section \<open>ZRLE with a context that persists\<close>

text \<open>
  The specification's ZRLE: the payload of a rectangle goes through an inflater whose
  state \<open>z\<close> is kept from one rectangle to the next, and what it produces is decoded
  tile by tile. \<open>capacity\<close> is the size of the output buffer.
\<close>

definition spec_zrle_rectangle :: "'z extlib \<Rightarrow> nat \<Rightarrow> Rectangle \<Rightarrow> byte list \<Rightarrow> 'z \<times> 'z Private \<Rightarrow> fault + ('z \<times> 'z Private)" where
  "spec_zrle_rectangle lib capacity rect payload s =
     (case s of (z, c) \<Rightarrow>
        case inflate lib z payload capacity of
          (result, z', out) \<Rightarrow> then_do (zrle_tiles rect out c) (\<lambda>c'. Inr (z', c')))"

text \<open>The same client with other zlib contexts.\<close>

definition with_streams :: "'z TightData \<Rightarrow> 'z Private \<Rightarrow> 'z Private" where
  "with_streams td c = c\<lparr>tightData := td\<rparr>"

text \<open>
  Two ZRLE payloads cut from one zlib stream of stored blocks, the second without a
  header of its own, each ended by the empty stored block of a sync flush, and the
  tile data they hold: a solid tile of red, then a solid tile of blue.
\<close>

definition zrle_payload1 :: "byte list" where
  "zrle_payload1 = [0x78, 0x01,  0x00, 0x05, 0x00, 0xFA, 0xFF,  1, 0, 0, 255, 0,
                    0x00, 0x00, 0x00, 0xFF, 0xFF]"

definition zrle_payload2 :: "byte list" where
  "zrle_payload2 = [0x00, 0x05, 0x00, 0xFA, 0xFF,  1, 255, 0, 0, 0,
                    0x00, 0x00, 0x00, 0xFF, 0xFF]"

text \<open>
  The two FramebufferUpdate messages (with their message type) that carry these
  payloads, for the pixels (0, 0) and (1, 0).
\<close>

definition zrle_rect1 :: Rectangle where
  "zrle_rect1 = \<lparr>rect_x = 0, rect_y = 0, rect_w = 1, rect_h = 1\<rparr>"

definition zrle_rect2 :: Rectangle where
  "zrle_rect2 = \<lparr>rect_x = 1, rect_y = 0, rect_w = 1, rect_h = 1\<rparr>"

definition zrle_message :: "Rectangle \<Rightarrow> byte list \<Rightarrow> byte list" where
  "zrle_message rect payload =
     [0, 0, 0, 1] @ rectangle_bytes rect @ [0, 0, 0, 16]
     @ bytes_be32 (word_of_nat (length payload)) @ payload"

text \<open>
  A payload in the format of \<open>qUncompress\<close>: the expected size, then a whole zlib
  stream with its final block and checksum, holding the solid tile of red.
\<close>

definition zrle_payload_qt :: "byte list" where
  "zrle_payload_qt = [0, 0, 0, 5,  0x78, 0x01,  0x01, 0x05, 0x00, 0xFA, 0xFF,  1, 0, 0, 255, 0,
                      0x02, 0x08, 0x01, 0x01]"

section \<open>Bytes and words\<close>

lemma be32_bytes: "be32 (ucast (drop_bit 24 v)) (ucast (drop_bit 16 v)) (ucast (drop_bit 8 v)) (ucast v) = (v::32 word)"
  unfolding be32_def
proof (rule bit_word_eqI)
  fix n :: nat
  assume "n < LENGTH(32)"
  then have n: "n < 32" by simp
  consider "n < 8" | "8 \<le> n" "n < 16" | "16 \<le> n" "n < 24" | "24 \<le> n"
    by linarith
  then show "bit (push_bit 24 (ucast (ucast (drop_bit 24 v) :: byte)) OR
                  push_bit 16 (ucast (ucast (drop_bit 16 v) :: byte)) OR
                  push_bit 8 (ucast (ucast (drop_bit 8 v) :: byte)) OR ucast (ucast v :: byte) :: 32 word) n = bit v n"
    using n by cases (auto simp: bit_simps)
qed

lemma bytes_be32_inj: "bytes_be32 v = bytes_be32 w \<Longrightarrow> v = w"
proof -
  assume a: "bytes_be32 v = bytes_be32 w"
  have "be32 (ucast (drop_bit 24 v)) (ucast (drop_bit 16 v)) (ucast (drop_bit 8 v)) (ucast v)
      = be32 (ucast (drop_bit 24 w)) (ucast (drop_bit 16 w)) (ucast (drop_bit 8 w)) (ucast w)"
    using a by (simp add: bytes_be32_def)
  then show ?thesis by (simp add: be32_bytes)
qed

lemma unat_3bytes: "unat (push_bit 16 (ucast (a::byte)) OR push_bit 8 (ucast (b::byte)) OR (ucast (c::byte) :: quint32)) = 65536 * unat a + 256 * unat b + unat c"
proof -
  have d1: "push_bit 8 (ucast b) OR (ucast c :: quint32) = push_bit 8 (ucast b) + ucast c"
    by (rule disjunctive_add_eq_or [symmetric]) (auto simp add: bit_eq_iff bit_simps dest: bit_imp_le_length)
  have d2: "push_bit 16 (ucast a) OR (push_bit 8 (ucast b) OR (ucast c :: quint32))
          = push_bit 16 (ucast a) + (push_bit 8 (ucast b) OR ucast c)"
    by (rule disjunctive_add_eq_or [symmetric]) (auto simp add: bit_eq_iff bit_simps dest: bit_imp_le_length)
  have "unat a < 256" "unat b < 256" "unat c < 256"
    using unsigned_less [of a, where 'a = nat] unsigned_less [of b, where 'a = nat] unsigned_less [of c, where 'a = nat] by simp_all
  note bounds = this
  define N where "N = 65536 * unat a + 256 * unat b + unat c"
  have e: "push_bit 16 (ucast a) + (push_bit 8 (ucast b) + ucast c) = (word_of_nat N :: quint32)"
    by (simp add: push_bit_eq_mult N_def)
  have "N < 2 ^ 32"
    using bounds by (simp add: N_def)
  then have "unat (word_of_nat N :: quint32) = N"
    by (simp add: unat_of_nat)
  moreover have "push_bit 16 (ucast a) OR push_bit 8 (ucast b) OR ucast c = (word_of_nat N :: quint32)"
    using d2 by (simp only: d1 e)
  ultimately show ?thesis
    by (simp only: N_def)
qed

lemma wire_append: "wire (xs @ ys) = wire xs @ wire ys"
  by (induction xs rule: wire.induct) simp_all

lemma length_bytes_be32: "length (bytes_be32 v) = 4"
  by (simp add: bytes_be32_def)

section \<open>Invariants of the loops\<close>

declare wait_while_short.simps [simp del]
declare zrle_wait.simps [simp del]
declare read_payload.simps [simp del]
declare stored_blocks.simps [simp del]

lemma image_frame_refl: "image_frame a a"
  by (simp add: image_frame_def)

lemma image_frame_trans: "image_frame a b \<Longrightarrow> image_frame b c \<Longrightarrow> image_frame a c"
  by (simp add: image_frame_def)

lemma image_frame_setPixel: "image_frame a (setPixel px py colour a)"
  by (auto simp: image_frame_def setPixel_def)

lemma image_frame_fold:
  "image_frame a (fold (\<lambda>i. setPixel (f i) (g i) (h i)) xs a)"
proof (induction xs arbitrary: a)
  case Nil
  show ?case by (simp add: image_frame_refl)
next
  case (Cons i xs)
  show ?case
    using image_frame_trans [OF image_frame_setPixel Cons.IH] by simp
qed

lemma image_frame_fold2:
  "image_frame a (fold (\<lambda>j. fold (\<lambda>i. setPixel (f i j) (g i j) (h i j)) (xs j)) ys a)"
proof (induction ys arbitrary: a)
  case Nil
  show ?case by (simp add: image_frame_refl)
next
  case (Cons j ys)
  show ?case
    using image_frame_trans [OF image_frame_fold Cons.IH] by simp
qed

lemma image_frame_fill_rect: "image_frame a (fill_rect x0 y0 w h colour a)"
  unfolding fill_rect_def by (rule image_frame_fold2)

lemma image_frame_drawImage: "image_frame a (drawImage x0 y0 src a)"
  unfolding drawImage_def by (rule image_frame_fold2)

lemma same_session_refl: "same_session c c"
  by (simp add: same_session_def image_frame_refl)

lemma same_session_trans: "same_session a b \<Longrightarrow> same_session b c \<Longrightarrow> same_session a c"
  by (auto simp: same_session_def intro: image_frame_trans)

lemma same_session_req: "same_session c c' \<Longrightarrow> req c' = req c"
  by (simp add: same_session_def req_def)


lemma monoidal_nothing: "monoidal nothing"
  by (simp add: monoidal_def nothing_def)

lemma requests_only_append:
  "requests_only rb a \<Longrightarrow> requests_only rb b \<Longrightarrow> requests_only rb (a @ b)"
proof -
  assume "requests_only rb a" "requests_only rb b"
  then obtain k l where "wire a = concat (replicate k rb)" "wire b = concat (replicate l rb)"
    by (auto simp: requests_only_def)
  then have "wire (a @ b) = concat (replicate (k + l) rb)"
    by (simp add: wire_append replicate_add)
  then show ?thesis
    unfolding requests_only_def by blast
qed

lemma requests_only_Nil: "requests_only rb []"
  unfolding requests_only_def by (rule exI [of _ 0]) simp

lemma monoidal_requests_only: "monoidal (requests_only rb)"
  by (simp add: monoidal_def requests_only_Nil requests_only_append)

lemma monoidal_quiet: "monoidal (quiet rb)"
  by (auto simp: monoidal_def quiet_def requests_only_Nil requests_only_append)


lemma quiet_requests_only: "quiet rb ws \<Longrightarrow> requests_only rb ws"
  by (simp add: quiet_def)

lemma advances_mono: "(\<And>ws. G ws \<Longrightarrow> G' ws) \<Longrightarrow> advances G c c' \<Longrightarrow> advances G' c c'"
  by (auto simp: advances_def)

lemma advances_refl: "monoidal G \<Longrightarrow> advances G c c"
  by (simp add: advances_def monoidal_def same_session_refl)

lemma advances_trans:
  "monoidal G \<Longrightarrow> advances G a b \<Longrightarrow> advances G b c \<Longrightarrow> advances G a c"
  unfolding advances_def monoidal_def
  by (metis append.assoc same_session_trans)

lemma for_all_advances:
  assumes m: "monoidal G"
    and step: "\<And>i s s'. body i s = Inr s' \<Longrightarrow> advances G (cl s) (cl s')"
  shows "for_all xs body s = Inr s' \<Longrightarrow> advances G (cl s) (cl s')"
proof (induction xs arbitrary: s)
  case Nil
  then show ?case by (simp add: advances_refl [OF m])
next
  case (Cons i xs)
  from Cons.prems obtain s1 where b: "body i s = Inr s1" and r: "for_all xs body s1 = Inr s'"
    by (auto split: sum.splits)
  show ?case
    using advances_trans [OF m step [OF b] Cons.IH [OF r]] .
qed

lemma for_each_advances:
  assumes m: "monoidal G"
    and step: "\<And>i s r s'. body i s = Inr (r, s') \<Longrightarrow> advances G (cl s) (cl s')"
  shows "for_each xs body s = Inr (r, s') \<Longrightarrow> advances G (cl s) (cl s')"
proof (induction xs arbitrary: s)
  case Nil
  then show ?case by (simp add: advances_refl [OF m])
next
  case (Cons i xs)
  from Cons.prems obtain r1 s1 where b: "body i s = Inr (r1, s1)"
    and r: "(r1 \<and> r \<and> s' = s1) \<or> (\<not> r1 \<and> for_each xs body s1 = Inr (r, s'))"
    by (auto split: sum.splits if_splits)
  from r show ?case
  proof
    assume "r1 \<and> r \<and> s' = s1"
    then show ?thesis using step [OF b] by simp
  next
    assume "\<not> r1 \<and> for_each xs body s1 = Inr (r, s')"
    then show ?thesis
      using advances_trans [OF m step [OF b] Cons.IH] by blast
  qed
qed

lemma for_each_rel:
  assumes refl: "\<And>a. R a a"
    and trans: "\<And>a b d. R a b \<Longrightarrow> R b d \<Longrightarrow> R a d"
    and step: "\<And>i s r s'. body i s = Inr (r, s') \<Longrightarrow> R (cl s) (cl s')"
  shows "for_each xs body s = Inr (r, s') \<Longrightarrow> R (cl s) (cl s')"
proof (induction xs arbitrary: s)
  case Nil
  then show ?case by (simp add: refl)
next
  case (Cons i xs)
  from Cons.prems obtain r1 s1 where b: "body i s = Inr (r1, s1)"
    and r: "(r1 \<and> r \<and> s' = s1) \<or> (\<not> r1 \<and> for_each xs body s1 = Inr (r, s'))"
    by (auto split: sum.splits if_splits)
  from r show ?case
  proof
    assume "r1 \<and> r \<and> s' = s1"
    then show ?thesis using step [OF b] by simp
  next
    assume "\<not> r1 \<and> for_each xs body s1 = Inr (r, s')"
    then show ?thesis
      using trans [OF step [OF b] Cons.IH] by blast
  qed
qed

subsection \<open>The reads, the waits and the pixel writes are silent\<close>

lemma advances_nothing_iff:
  "advances nothing c c' \<longleftrightarrow> same_session c c' \<and> trace c' = trace c"
  by (auto simp: advances_def nothing_def)

lemma socket_read_silent: "socket_read n c = (bs, c') \<Longrightarrow> advances nothing c c'"
  by (auto simp: advances_nothing_iff same_session_def socket_read_def image_frame_refl)

lemma read_T_silent: "read_T n c = (bs, c') \<Longrightarrow> advances nothing c c'"
  by (auto simp: read_T_def advances_refl [OF monoidal_nothing] dest: socket_read_silent
      split: if_splits)

lemma read_u8_silent: "read_u8 c = Inr (b, c') \<Longrightarrow> advances nothing c c'"
  by (auto simp: read_u8_def dest: read_T_silent split: prod.splits list.splits)

lemma read_be16_silent: "read_be16 c = Inr (v, c') \<Longrightarrow> advances nothing c c'"
  by (auto simp: read_be16_def dest: read_T_silent split: prod.splits list.splits)

lemma read_be32_silent: "read_be32 c = Inr (v, c') \<Longrightarrow> advances nothing c c'"
  by (auto simp: read_be32_def dest: read_T_silent split: prod.splits list.splits)

lemma read_le32_silent: "read_le32 c = Inr (v, c') \<Longrightarrow> advances nothing c c'"
  by (auto simp: read_le32_def dest: read_T_silent split: prod.splits list.splits)

lemma read_rectangle_silent: "read_rectangle c = Inr (r, c') \<Longrightarrow> advances nothing c c'"
  by (auto simp: read_rectangle_def dest: read_T_silent split: prod.splits list.splits)

lemma socket_read_u8_silent: "socket_read_u8 c = Inr (b, c') \<Longrightarrow> advances nothing c c'"
  by (auto simp: socket_read_u8_def dest: socket_read_silent split: prod.splits list.splits)

lemma socket_read_u8_init_silent: "socket_read_u8_init d c = (b, c') \<Longrightarrow> advances nothing c c'"
  by (auto simp: socket_read_u8_init_def dest: socket_read_silent split: prod.splits)

lemma read_u8_init_silent: "read_u8_init d c = (b, c') \<Longrightarrow> advances nothing c c'"
  by (auto simp: read_u8_init_def dest: read_T_silent split: prod.splits)

lemma waitForReadyRead_silent: "waitForReadyRead c = (ok, c') \<Longrightarrow> advances nothing c c'"
  by (auto simp: advances_nothing_iff same_session_def waitForReadyRead_def image_frame_refl
      split: list.splits)

lemma wait_once_if_short_silent: "advances nothing c (wait_once_if_short n c)"
  by (cases "waitForReadyRead c")
     (auto simp: wait_once_if_short_def advances_refl [OF monoidal_nothing]
      dest: waitForReadyRead_silent)

lemma put_silent: "advances nothing c (put px py colour c)"
  by (simp add: advances_nothing_iff same_session_def put_def image_frame_setPixel)

lemma image_update_silent:
  "image_frame (image c) img \<Longrightarrow> advances nothing c (c\<lparr>image := img\<rparr>)"
  by (simp add: advances_nothing_iff same_session_def)

lemma advances_nothing_trans:
  "advances nothing a b \<Longrightarrow> advances nothing b c \<Longrightarrow> advances nothing a c"
  by (rule advances_trans [OF monoidal_nothing])

lemma wait_while_short_silent: "wait_while_short n c = Inr c' \<Longrightarrow> advances nothing c c'"
proof (induction n c rule: wait_while_short.induct)
  case (1 n c)
  show ?case
  proof (cases "int (bytesAvailable c) < n")
    case False
    with "1.prems" show ?thesis
      by (subst (asm) wait_while_short.simps) (simp add: advances_refl [OF monoidal_nothing])
  next
    case True
    obtain ok c1 where w: "waitForReadyRead c = (ok, c1)"
      by (cases "waitForReadyRead c")
    from "1.prems" have "(if ok then wait_while_short n c1 else Inl Hang) = Inr c'"
      by (subst (asm) wait_while_short.simps) (simp add: True w)
    then have ok: "ok" and r: "wait_while_short n c1 = Inr c'"
      by (auto split: if_splits)
    from "1.IH" [OF True w [symmetric] ok r] waitForReadyRead_silent [OF w]
    show ?thesis
      by (blast intro: advances_nothing_trans)
  qed
qed

subsection \<open>The request\<close>

lemma framebufferUpdateRequest_incremental:
  "framebufferUpdateRequest True QRect_default c = c\<lparr>trace := trace c @ request_events c\<rparr>"
  by (simp add: framebufferUpdateRequest_def request_events_def QRect_default_def isEmpty_def
      write_T_def socket_write_def emit_def isValid_def Let_def)

lemma wire_request_events: "wire (request_events c) = (if isValid c then req c else [])"
  by (simp add: request_events_def req_def request_bytes_def)

lemma requests_only_request_events: "requests_only (req c) (request_events c)"
proof (cases "isValid c")
  case True
  then have "wire (request_events c) = concat (replicate 1 (req c))"
    by (simp add: wire_request_events)
  then show ?thesis unfolding requests_only_def by blast
next
  case False
  then have "wire (request_events c) = concat (replicate 0 (req c))"
    by (simp add: wire_request_events)
  then show ?thesis unfolding requests_only_def by blast
qed

lemma request_events_no_signal: "\<forall>e \<in> set (request_events c). \<not> is_signal e"
  by (auto simp: request_events_def)

lemma request_advances:
  "requests_only (req c) ws \<Longrightarrow> G = requests_only (req c) \<Longrightarrow>
   advances G c (framebufferUpdateRequest True QRect_default c)"
  by (auto simp: advances_def framebufferUpdateRequest_incremental same_session_def
      image_frame_refl requests_only_request_events)

lemma emit_advances: "G [e] \<Longrightarrow> advances G c (emit e c)"
  by (auto simp: advances_def emit_def same_session_def image_frame_refl)

lemma requests_only_no_write: "wire ws = [] \<Longrightarrow> requests_only rb ws"
  unfolding requests_only_def by (rule exI [of _ 0]) simp

lemma silent_advances: "monoidal G \<Longrightarrow> advances nothing c c' \<Longrightarrow> advances G c c'"
  by (auto simp: advances_def nothing_def monoidal_def)

text \<open>A warning and then the request.\<close>

lemma warn_request_quiet:
  "advances (quiet (req c))
     c (framebufferUpdateRequest True QRect_default (emit (Warned msg) c))"
proof -
  let ?c1 = "emit (Warned msg) c"
  have r: "req ?c1 = req c" and v: "request_events ?c1 = request_events c"
    by (simp_all add: req_def emit_def request_events_def isValid_def)
  have "trace (framebufferUpdateRequest True QRect_default ?c1)
        = trace c @ (Warned msg # request_events c)"
    by (simp add: framebufferUpdateRequest_incremental v) (simp add: emit_def)
  moreover have "quiet (req c) (Warned msg # request_events c)"
    using requests_only_request_events [of c] request_events_no_signal [of c]
    by (auto simp: quiet_def requests_only_def)
  moreover have "same_session c (framebufferUpdateRequest True QRect_default ?c1)"
    by (simp add: framebufferUpdateRequest_incremental same_session_def emit_def image_frame_refl)
  ultimately show ?thesis
    unfolding advances_def by blast
qed

subsection \<open>Hextile\<close>

lemma read_colour_if32_silent:
  "read_colour_if32 specified old c = Inr (v, c') \<Longrightarrow> advances nothing c c'"
  by (auto simp: read_colour_if32_def advances_refl [OF monoidal_nothing]
      dest: read_le32_silent split: if_splits)

lemma hextile_raw_pixel_silent:
  "hextile_raw_pixel rect tx ty y x c = Inr c' \<Longrightarrow> advances nothing c c'"
  by (auto simp: hextile_raw_pixel_def then_do_def advances_refl [OF monoidal_nothing]
      split: if_splits sum.splits
      intro: advances_nothing_trans [OF read_le32_silent put_silent])

lemma hextile_subrect_silent:
  assumes "hextile_subrect rect tx ty tw th subencoding fg c = Inr c'"
  shows "advances nothing c c'"
proof -
  from assms obtain color c1 xy c2 wh c3 img where
    a: "read_colour_if32 (subencoding AND SubrectsColoured \<noteq> 0) fg c = Inr (color, c1)"
    and b: "read_u8 c1 = Inr (xy, c2)" and d: "read_u8 c2 = Inr (wh, c3)"
    and e: "c' = c3\<lparr>image := img\<rparr>" and f: "image_frame (image c3) img"
    by (auto simp: hextile_subrect_def then_do_def Let_def image_frame_fill_rect
        split: sum.splits)
  show ?thesis
    unfolding e
    using read_colour_if32_silent [OF a] read_u8_silent [OF b] read_u8_silent [OF d]
      image_update_silent [OF f]
    by (blast intro: advances_nothing_trans)
qed

lemma hextile_tile_silent:
  assumes "hextile_tile rect ty tx s = Inr s'"
  shows "advances nothing (snd (snd s)) (snd (snd s'))"
proof -
  obtain bg0 fg0 c where s: "s = (bg0, fg0, c)"
    by (cases s) auto
  let ?th = "min 16 (unat (rect_h rect) - ty)"
  let ?tw = "min 16 (unat (rect_w rect) - tx)"
  from assms s obtain subencoding c1 where
    r: "read_u8 c = Inr (subencoding, c1)"
    by (auto simp: hextile_tile_def then_do_def Let_def split: sum.splits)
  note r1 = read_u8_silent [OF r]
  show ?thesis
  proof (cases "subencoding AND RawSubencoding \<noteq> 0")
    case True
    with assms s r obtain c2 where
      l: "for_all [0..<?th] (\<lambda>y. for_all [0..<?tw] (hextile_raw_pixel rect tx ty y)) c1 = Inr c2"
      and e: "s' = (bg0, fg0, c2)"
      by (auto simp: hextile_tile_def then_do_def Let_def split: sum.splits)
    have "advances nothing c1 c2"
      by (rule for_all_advances [where cl = "\<lambda>c. c", OF monoidal_nothing _ l],
          rule for_all_advances [where cl = "\<lambda>c. c", OF monoidal_nothing],
          rule hextile_raw_pixel_silent)
    with r1 show ?thesis
      by (auto simp: s e intro: advances_nothing_trans)
  next
    case False
    with assms s r obtain bg c2 where
      b: "read_colour_if32 (subencoding AND BackgroundSpecified \<noteq> 0) bg0 c1 = Inr (bg, c2)"
      by (auto simp: hextile_tile_def then_do_def Let_def split: sum.splits)
    define c3 where "c3 = c2\<lparr>image :=
        fill_rect (unat (rect_x rect) + tx) (unat (rect_y rect) + ty) ?tw ?th
          (pixel_rgb (pixelFormat c2) bg) (image c2)\<rparr>"
    have r3: "advances nothing c c3"
      using r1 read_colour_if32_silent [OF b]
        image_update_silent [OF image_frame_fill_rect, of c2]
      unfolding c3_def by (blast intro: advances_nothing_trans)
    show ?thesis
    proof (cases "subencoding AND AnySubrects \<noteq> 0")
      case no: False
      with False assms s r b have "s' = (bg, fg0, c3)"
        by (auto simp: hextile_tile_def then_do_def Let_def c3_def split: sum.splits)
      with r3 show ?thesis by (simp add: s)
    next
      case True
      with False assms s r b obtain fg c4 n c5 c6 where
        f: "read_colour_if32 (subencoding AND ForegroundSpecified \<noteq> 0) fg0 c3 = Inr (fg, c4)"
        and n: "read_u8 c4 = Inr (n, c5)"
        and l: "for_all [0..<unat n] (\<lambda>i. hextile_subrect rect tx ty ?tw ?th subencoding fg) c5
                = Inr c6"
        and e: "s' = (bg, fg, c6)"
        by (auto simp: hextile_tile_def then_do_def Let_def c3_def split: sum.splits)
      have "advances nothing c5 c6"
        by (rule for_all_advances [where cl = "\<lambda>c. c", OF monoidal_nothing _ l],
            rule hextile_subrect_silent)
      with r3 read_colour_if32_silent [OF f] read_u8_silent [OF n] show ?thesis
        by (auto simp: s e intro: advances_nothing_trans)
    qed
  qed
qed

lemma handleHextileEncoding_silent:
  assumes "handleHextileEncoding rect c = Inr c'"
  shows "advances nothing c c'"
proof -
  from assms obtain bg fg where
    l: "for_all (tile_origins (unat (rect_h rect)) 16)
          (\<lambda>ty. for_all (tile_origins (unat (rect_w rect)) 16) (hextile_tile rect ty))
          (0, 0, c) = Inr (bg, fg, c')"
    by (auto simp: handleHextileEncoding_def then_do_def split: sum.splits)
  have "advances nothing (snd (snd (0 :: quint32, 0 :: quint32, c))) (snd (snd (bg, fg, c')))"
    by (rule for_all_advances [where cl = "\<lambda>s. snd (snd s)", OF monoidal_nothing _ l],
        rule for_all_advances [where cl = "\<lambda>s. snd (snd s)", OF monoidal_nothing],
        rule hextile_tile_silent)
  then show ?thesis by simp
qed

subsection \<open>Raw\<close>

lemma raw_pixel_advances:
  assumes "raw_pixel rect y x c = Inr (r, c')"
  shows "advances (requests_only rb) c c'"
proof (cases "bitsPerPixel (pixelFormat c) = 32")
  case True
  with assms obtain color c1 where a: "read_le32 c = Inr (color, c1)"
    and e: "c' = put (unat (rect_x rect) + x) (unat (rect_y rect) + y)
                     (pixel_rgb (pixelFormat c1) color) c1"
    by (auto simp: raw_pixel_def then_do_def split: sum.splits)
  have "advances nothing c c'"
    unfolding e using read_le32_silent [OF a] put_silent
    by (blast intro: advances_nothing_trans)
  then show ?thesis
    by (rule silent_advances [OF monoidal_requests_only])
next
  case False
  with assms have "c' = emit (Warned ''bits per pixel not supported'') c"
    by (simp add: raw_pixel_def)
  then show ?thesis
    by (simp add: emit_advances requests_only_no_write)
qed

lemma raw_row_advances:
  assumes "raw_row rect y c = Inr (r, c')"
  shows "advances (requests_only rb) c c'"
proof -
  from assms obtain r1 c1 where
    l: "for_each [0..<unat (rect_w rect)] (raw_pixel rect y) c = Inr (r1, c1)"
    and e: "c' = (if r1 then c1
                  else emit (ImageChanged (unat (rect_x rect)) (unat (rect_y rect))
                                          (unat (rect_w rect)) (unat (rect_h rect))) c1)"
    by (auto simp: raw_row_def then_do_def split: sum.splits if_splits)
  have a: "advances (requests_only rb) c c1"
    by (rule for_each_advances [where cl = "\<lambda>c. c", OF monoidal_requests_only _ l],
        rule raw_pixel_advances)
  show ?thesis
  proof (cases r1)
    case True
    with a e show ?thesis by simp
  next
    case False
    then show ?thesis
      using advances_trans [OF monoidal_requests_only a emit_advances] e
      by (simp add: requests_only_no_write)
  qed
qed

lemma handleRawEncoding_advances:
  assumes "handleRawEncoding rect c = Inr c'"
  shows "advances (requests_only (req c)) c c'"
proof -
  from assms obtain c1 r c2 where
    w: "wait_while_short
          (cdiv (int32 (uint (rect_w rect) * uint (rect_h rect)
                        * uint (bitsPerPixel (pixelFormat c)))) 8) c = Inr c1"
    and l: "for_each [0..<unat (rect_h rect)] (raw_row rect) c1 = Inr (r, c2)"
    and e: "c' = (if r then c2 else framebufferUpdateRequest True QRect_default c2)"
    by (auto simp: handleRawEncoding_def then_do_def split: sum.splits if_splits)
  have a: "advances (requests_only (req c)) c c1"
    using wait_while_short_silent [OF w] by (rule silent_advances [OF monoidal_requests_only])
  have b: "advances (requests_only (req c)) c1 c2"
    by (rule for_each_advances [where cl = "\<lambda>c. c", OF monoidal_requests_only _ l],
        rule raw_row_advances)
  have ab: "advances (requests_only (req c)) c c2"
    by (rule advances_trans [OF monoidal_requests_only a b])
  then have q: "req c2 = req c"
    by (simp add: advances_def same_session_req)
  have "advances (requests_only (req c)) c2 (framebufferUpdateRequest True QRect_default c2)"
    by (rule request_advances [OF requests_only_Nil]) (simp add: q)
  with ab e show ?thesis
    by (auto intro: advances_trans [OF monoidal_requests_only])
qed

subsection \<open>ZRLE\<close>

lemma quiet_warning: "quiet rb [Warned msg]"
  by (simp add: quiet_def requests_only_no_write)

lemma warn_quiet: "advances (quiet rb) c (emit (Warned msg) c)"
  by (rule emit_advances) (rule quiet_warning)

lemma silent_quiet: "advances nothing c c' \<Longrightarrow> advances (quiet rb) c c'"
  by (rule silent_advances [OF monoidal_quiet])

lemma quiet_trans:
  "advances (quiet rb) a b \<Longrightarrow> advances (quiet rb) b c \<Longrightarrow> advances (quiet rb) a c"
  by (rule advances_trans [OF monoidal_quiet])

lemma zrle_wait_quiet: "advances (quiet rb) c (zrle_wait n c)"
proof (induction n c rule: zrle_wait.induct)
  case (1 n c)
  show ?case
  proof (cases "bytesAvailable c < n")
    case False
    then show ?thesis
      by (subst zrle_wait.simps) (simp add: advances_refl [OF monoidal_quiet])
  next
    case True
    obtain ok c1 where w: "waitForReadyRead c = (ok, c1)"
      by (cases "waitForReadyRead c")
    note s = silent_quiet [OF waitForReadyRead_silent [OF w]]
    show ?thesis
    proof (cases ok)
      case True
      from "1.IH" [OF \<open>bytesAvailable c < n\<close> w [symmetric] True] s
      have "advances (quiet rb) c (zrle_wait n c1)"
        by (blast intro: quiet_trans)
      moreover have "zrle_wait n c = zrle_wait n c1"
        using \<open>bytesAvailable c < n\<close> w True by (subst zrle_wait.simps) simp
      ultimately show ?thesis by simp
    next
      case False
      have "zrle_wait n c = emit (Warned ''Timeout waiting for ZRLE data'') c1"
        using \<open>bytesAvailable c < n\<close> w False by (subst zrle_wait.simps) simp
      then show ?thesis
        using quiet_trans [OF s warn_quiet] by simp
    qed
  qed
qed

lemma zrle_raw_pixel_silent:
  "zrle_raw_pixel rect data tx ty y x s = Inr s' \<Longrightarrow> advances nothing (snd s) (snd s')"
  by (cases s)
     (auto simp: zrle_raw_pixel_def then_do_def Let_def put_silent
      split: sum.splits if_splits)

lemma zrle_packed_pixel_silent:
  "zrle_packed_pixel rect data dataOffset palette bits tx ty y x s = Inr s' \<Longrightarrow>
   advances nothing (snd (snd s)) (snd (snd s'))"
  by (cases s)
     (auto simp: zrle_packed_pixel_def then_do_def Let_def put_silent
      advances_refl [OF monoidal_nothing] split: sum.splits if_splits)

lemma zrle_packed_row_silent:
  assumes "zrle_packed_row rect data dataOffset palette bits tx ty tw y s = Inr s'"
  shows "advances nothing (snd (snd s)) (snd (snd s'))"
proof -
  obtain byteOffset bitOffset c where s: "s = (byteOffset, bitOffset, c)"
    by (cases s) auto
  from assms s obtain s1 where
    l: "for_all [0..<tw] (zrle_packed_pixel rect data dataOffset palette bits tx ty y)
          (byteOffset, 0, c) = Inr s1"
    and e: "snd (snd s') = snd (snd s1)"
    by (auto simp: zrle_packed_row_def then_do_def split: sum.splits if_splits)
  have "advances nothing (snd (snd (byteOffset, 0 :: nat, c))) (snd (snd s1))"
    by (rule for_all_advances [where cl = "\<lambda>s. snd (snd s)", OF monoidal_nothing _ l],
        rule zrle_packed_pixel_silent)
  then show ?thesis by (simp add: s e)
qed

lemma zrle_tile_quiet:
  assumes "zrle_tile rect data ty tx s = Inr (r, s')"
  shows "advances (quiet rb) (snd s) (snd s')"
proof -
  obtain dataOffset c where s: "s = (dataOffset, c)"
    by (cases s)
  let ?th = "min 64 (unat (rect_h rect) - ty)"
  let ?tw = "min 64 (unat (rect_w rect) - tx)"
  have loop0: "\<And>s0 s1. for_all [0..<?th]
                  (\<lambda>y. for_all [0..<?tw] (zrle_raw_pixel rect data tx ty y)) s0 = Inr s1
               \<Longrightarrow> advances nothing (snd s0) (snd s1)"
    by (rule for_all_advances [where cl = snd, OF monoidal_nothing],
        rule for_all_advances [where cl = snd, OF monoidal_nothing],
        rule zrle_raw_pixel_silent)
  have loop2: "\<And>off pal bits s0 s1. for_all [0..<?th]
                  (zrle_packed_row rect data off pal bits tx ty ?tw) s0 = Inr s1
               \<Longrightarrow> advances nothing (snd (snd s0)) (snd (snd s1))"
    by (rule for_all_advances [where cl = "\<lambda>s. snd (snd s)", OF monoidal_nothing],
        rule zrle_packed_row_silent)
  have fill: "\<And>colour. advances nothing c
      (c\<lparr>image := fill_rect (unat (rect_x rect) + tx) (unat (rect_y rect) + ty) ?tw ?th
                    colour (image c)\<rparr>)"
    by (rule image_update_silent [OF image_frame_fill_rect])
  note fillq = silent_quiet [OF fill]
  from assms show ?thesis
    unfolding s zrle_tile_def Let_def then_do_def
    by (auto simp: warn_quiet fillq split: if_splits sum.splits
        dest!: loop0 loop2 intro: silent_quiet)
qed

lemma zrle_tiles_quiet:
  assumes "zrle_tiles rect data c = Inr c'"
  shows "advances (quiet rb) c c'"
proof -
  from assms obtain r off where
    l: "for_each (tile_origins (unat (rect_h rect)) 64)
          (\<lambda>ty. for_each (tile_origins (unat (rect_w rect)) 64) (zrle_tile rect data ty))
          (0, c) = Inr (r, off, c')"
    by (auto simp: zrle_tiles_def then_do_def split: sum.splits)
  have "advances (quiet rb) (snd (0 :: nat, c)) (snd (off, c'))"
    by (rule for_each_advances [where cl = snd, OF monoidal_quiet _ l],
        rule for_each_advances [where cl = snd, OF monoidal_quiet],
        rule zrle_tile_quiet)
  then show ?thesis by simp
qed

lemma handleZRLEEncoding_quiet:
  assumes "handleZRLEEncoding lib rect c = Inr c'"
  shows "advances (quiet (req c)) c c'"
proof (cases "bytesAvailable c < 4")
  case True
  with assms show ?thesis
    by (simp add: handleZRLEEncoding_def advances_refl [OF monoidal_quiet])
next
  case False
  with assms obtain len c1 where a: "read_be32 c = Inr (len, c1)"
    by (auto simp: handleZRLEEncoding_def then_do_def split: sum.splits)
  note s1 = silent_quiet [OF read_be32_silent [OF a], of "req c"]
  show ?thesis
  proof (cases "len = 0")
    case True
    with assms False a s1 show ?thesis
      by (simp add: handleZRLEEncoding_def then_do_def)
  next
    case nz: False
    obtain compressedData c2 where
      b: "socket_read (unat len) (zrle_wait (unat len) c1) = (compressedData, c2)"
      by (cases "socket_read (unat len) (zrle_wait (unat len) c1)")
    have s2: "advances (quiet (req c)) c c2"
      using s1 zrle_wait_quiet [where rb = "req c" and n = "unat len" and c = c1]
        silent_quiet [OF socket_read_silent [OF b], of "req c"]
      by (blast intro: quiet_trans)
    then have q: "req c2 = req c"
      by (simp add: advances_def same_session_req)
    show ?thesis
    proof (cases "qUncompress lib compressedData = []")
      case True
      with assms False a nz b have
        "c' = framebufferUpdateRequest True QRect_default
                (emit (Warned ''Failed to decompress ZRLE data, requesting new update'') c2)"
        by (simp add: handleZRLEEncoding_def then_do_def Let_def)
      then show ?thesis
        using quiet_trans [OF s2] warn_request_quiet [of c2] by (simp add: q)
    next
      case ne: False
      with assms False a nz b have
        "zrle_tiles rect (qUncompress lib compressedData) c2 = Inr c'"
        by (auto simp: handleZRLEEncoding_def then_do_def Let_def split: sum.splits)
      from zrle_tiles_quiet [OF this] s2 show ?thesis
        by (auto intro: quiet_trans)
    qed
  qed
qed

subsection \<open>Tight\<close>

lemma tight_wait_byte_quiet:
  "tight_wait_byte msg c = (ok, c') \<Longrightarrow> advances (quiet (req c)) c c'"
proof -
  assume a: "tight_wait_byte msg c = (ok, c')"
  obtain ok1 c1 where w: "waitForReadyRead c = (ok1, c1)"
    by (cases "waitForReadyRead c")
  note s = silent_quiet [OF waitForReadyRead_silent [OF w], of "req c"]
  then have q: "req c1 = req c"
    by (simp add: advances_def same_session_req)
  from a w consider "c' = c" | "c' = c1"
    | "c' = framebufferUpdateRequest True QRect_default (emit (Warned msg) c1)"
    by (auto simp: tight_wait_byte_def split: if_splits)
  then show ?thesis
  proof cases
    case 1
    then show ?thesis by (simp add: advances_refl [OF monoidal_quiet])
  next
    case 2
    with s show ?thesis by simp
  next
    case 3
    then show ?thesis
      using quiet_trans [OF s] warn_request_quiet [of c1 msg] by (simp add: q)
  qed
qed

lemma read_payload_silent: "read_payload n acc c = (res, c') \<Longrightarrow> advances nothing c c'"
proof (induction n acc c rule: read_payload.induct)
  case (1 n acc c)
  show ?case
  proof (cases "n = 0")
    case True
    with "1.prems" show ?thesis
      by (subst (asm) read_payload.simps) (simp add: advances_refl [OF monoidal_nothing])
  next
    case False
    obtain bs c1 where r: "socket_read n (wait_once_if_short 1 c) = (bs, c1)"
      by (cases "socket_read n (wait_once_if_short 1 c)")
    have s: "advances nothing c c1"
      using wait_once_if_short_silent socket_read_silent [OF r]
      by (blast intro: advances_nothing_trans)
    show ?thesis
    proof (cases "bs = []")
      case True
      with False r "1.prems" have "c' = c1"
        by (subst (asm) read_payload.simps) simp
      with s show ?thesis by simp
    next
      case ne: False
      with False r "1.prems" have "read_payload (n - length bs) (acc @ bs) c1 = (res, c')"
        by (subst (asm) read_payload.simps) simp
      from "1.IH" [OF False r [symmetric] ne this] s show ?thesis
        by (blast intro: advances_nothing_trans)
    qed
  qed
qed

lemma handleTightJpeg_trace:
  assumes "handleTightJpeg lib rect n c = (ok, c')"
  shows "same_session c c'
       \<and> (if ok then trace c' = trace c else (\<exists>msg. trace c' = trace c @ [Warned msg]))"
proof -
  obtain res c1 where r: "read_payload n [] c = (res, c1)"
    by (cases "read_payload n [] c")
  from read_payload_silent [OF r] have s: "same_session c c1" and t: "trace c1 = trace c"
    by (simp_all add: advances_nothing_iff)
  have w: "\<And>msg. same_session c (emit (Warned msg) c1)"
    using s by (simp add: same_session_def emit_def)
  have tw: "\<And>msg. trace (emit (Warned msg) c1) = trace c @ [Warned msg]"
    by (simp add: emit_def t)
  have d: "\<And>img. same_session c
      (c1\<lparr>image := drawImage (unat (rect_x rect)) (unat (rect_y rect)) img (image c1)\<rparr>)"
    using s image_frame_drawImage
    by (auto simp: same_session_def intro: image_frame_trans)
  from assms r show ?thesis
    by (auto simp: handleTightJpeg_def t w tw d split: option.splits)
qed

lemma warned_then_request_quiet:
  assumes "same_session c c1" and "trace c1 = trace c @ [Warned msg]"
  shows "advances (quiet (req c)) c (framebufferUpdateRequest True QRect_default c1)"
proof -
  have v: "request_events c1 = request_events c"
    using assms(1) by (simp add: request_events_def same_session_def isValid_def)
  have "trace (framebufferUpdateRequest True QRect_default c1)
        = trace c @ (Warned msg # request_events c)"
    by (simp add: framebufferUpdateRequest_incremental v assms(2))
  moreover have "quiet (req c) (Warned msg # request_events c)"
    using requests_only_request_events [of c] request_events_no_signal [of c]
    by (auto simp: quiet_def requests_only_def)
  moreover have "same_session c (framebufferUpdateRequest True QRect_default c1)"
    using assms(1) by (simp add: framebufferUpdateRequest_incremental same_session_def)
  ultimately show ?thesis
    unfolding advances_def by blast
qed

lemma decompressTightData_quiet:
  assumes "decompressTightData lib streamId data expectedBytes c = (out, c')"
  shows "advances (quiet rb) (c\<lparr>tightData := td\<rparr>) (c'\<lparr>tightData := td\<rparr>)"
proof -
  obtain result z' out1 where
    i: "inflate lib (zlibStream (tightData c) streamId) data (nat expectedBytes) = (result, z', out1)"
    by (cases "inflate lib (zlibStream (tightData c) streamId) data (nat expectedBytes)")
  from assms i consider "c'\<lparr>tightData := td\<rparr> = c\<lparr>tightData := td\<rparr>"
    | "c'\<lparr>tightData := td\<rparr>
       = emit (Warned ''Zlib inflation failed with error code:'') (c\<lparr>tightData := td\<rparr>)"
    by (auto simp: decompressTightData_def Let_def emit_def split: if_splits)
  then show ?thesis
    by cases (simp_all add: advances_refl [OF monoidal_quiet] warn_quiet)
qed

lemma tightData_irrelevant:
  "advances G (c\<lparr>tightData := td\<rparr>) (c'\<lparr>tightData := td'\<rparr>) \<longleftrightarrow> advances G c c'"
  by (simp add: advances_def same_session_def)

lemma tightData_update_silent: "advances nothing c (c\<lparr>tightData := td\<rparr>)"
  by (simp add: advances_nothing_iff same_session_def image_frame_refl)

lemma tight_jpeg_length_silent:
  assumes "tight_jpeg_length lenByte c = Inr (n, c')"
  shows "advances nothing c c'"
proof (cases "lenByte AND 0x80 \<noteq> 0")
  case False
  with assms show ?thesis
    by (simp add: tight_jpeg_length_def advances_refl [OF monoidal_nothing])
next
  case True
  with assms obtain b1 c1 b2 where
    a: "socket_read_u8 (wait_once_if_short 2 c) = Inr (b1, c1)"
    and b: "socket_read_u8 c1 = Inr (b2, c')"
    by (auto simp: tight_jpeg_length_def then_do_def split: sum.splits)
  from wait_once_if_short_silent socket_read_u8_silent [OF a] socket_read_u8_silent [OF b]
  show ?thesis
    by (blast intro: advances_nothing_trans)
qed

lemma tight_basic_length_silent:
  assumes "tight_basic_length compControl c = Inr (n, c')"
  shows "advances nothing c c'"
proof (cases "compControl AND 0x80 = 0")
  case True
  with assms obtain len where "socket_read_u8 (wait_once_if_short 1 c) = Inr (len, c')"
    by (auto simp: tight_basic_length_def then_do_def split: sum.splits)
  from socket_read_u8_silent [OF this] wait_once_if_short_silent show ?thesis
    by (blast intro: advances_nothing_trans)
next
  case False
  with assms obtain b1 c1 b2 c2 b3 where
    a: "socket_read_u8 (wait_once_if_short 3 c) = Inr (b1, c1)"
    and b: "socket_read_u8 c1 = Inr (b2, c2)"
    and d: "socket_read_u8 c2 = Inr (b3, c')"
    by (auto simp: tight_basic_length_def then_do_def split: sum.splits)
  from wait_once_if_short_silent socket_read_u8_silent [OF a] socket_read_u8_silent [OF b]
    socket_read_u8_silent [OF d]
  show ?thesis
    by (blast intro: advances_nothing_trans)
qed

lemma tight_pixel_silent: "tight_pixel rect data y x c = Inr c' \<Longrightarrow> advances nothing c c'"
  by (auto simp: tight_pixel_def then_do_def Let_def put_silent split: sum.splits if_splits)

lemma advances_req: "advances G c c' \<Longrightarrow> req c' = req c"
  by (simp add: advances_def same_session_req)

lemma tightData_irrelevant_right:
  "advances G c (c'\<lparr>tightData := td'\<rparr>) \<longleftrightarrow> advances G c c'"
  by (simp add: advances_def same_session_def)

lemma handleTightEncoding_quiet:
  assumes "handleTightEncoding lib rect c = Inr c'"
  shows "advances (quiet (req c)) c c'"
proof -
  obtain ok1 c1 where w1: "tight_wait_byte ''Timeout waiting for Tight compression control byte'' c
                           = (ok1, c1)"
    by (cases "tight_wait_byte ''Timeout waiting for Tight compression control byte'' c")
  note s1 = tight_wait_byte_quiet [OF w1]
  show ?thesis
  proof (cases ok1)
    case False
    with assms w1 have "c' = c1"
      by (simp add: handleTightEncoding_def)
    with s1 show ?thesis by simp
  next
    case True
    obtain cc c2 where r2: "socket_read_u8_init 0 c1 = (cc, c2)"
      by (cases "socket_read_u8_init 0 c1")
    have s2: "advances (quiet (req c)) c c2"
      using s1 silent_quiet [OF socket_read_u8_init_silent [OF r2]] by (blast intro: quiet_trans)
    note q2 = advances_req [OF s2]
    show ?thesis
    proof (cases "cc AND 0x0F = 0x09")
      case jpeg: True
      obtain ok3 c3 where w3: "tight_wait_byte ''Timeout waiting for JPEG length byte'' c2 = (ok3, c3)"
        by (cases "tight_wait_byte ''Timeout waiting for JPEG length byte'' c2")
      have s3: "advances (quiet (req c)) c c3"
        using s2 tight_wait_byte_quiet [OF w3] by (auto simp: q2 intro: quiet_trans)
      show ?thesis
      proof (cases ok3)
        case False
        with assms w1 True r2 jpeg w3 have "c' = c3"
          by (simp add: handleTightEncoding_def Let_def)
        with s3 show ?thesis by simp
      next
        case ok3: True
        obtain lenByte c4 where r4: "socket_read_u8_init 0 c3 = (lenByte, c4)"
          by (cases "socket_read_u8_init 0 c3")
        from assms w1 True r2 jpeg w3 ok3 r4 obtain len c5 where
          l5: "tight_jpeg_length lenByte c4 = Inr (len, c5)"
          by (auto simp: handleTightEncoding_def Let_def then_do_def split: sum.splits)
        obtain ok6 c6 where j: "handleTightJpeg lib rect len c5 = (ok6, c6)"
          by (cases "handleTightJpeg lib rect len c5")
        have s5: "advances (quiet (req c)) c c5"
          using s3 silent_quiet [OF socket_read_u8_init_silent [OF r4]]
            silent_quiet [OF tight_jpeg_length_silent [OF l5]]
          by (blast intro: quiet_trans)
        note q5 = advances_req [OF s5]
        from assms w1 True r2 jpeg w3 ok3 r4 l5 j have
          e: "c' = (if ok6 then c6 else framebufferUpdateRequest True QRect_default c6)"
          by (auto simp: handleTightEncoding_def Let_def then_do_def)
        show ?thesis
        proof (cases ok6)
          case True
          with handleTightJpeg_trace [OF j] have "advances nothing c5 c6"
            by (simp add: advances_nothing_iff)
          with s5 e True show ?thesis
            by (auto intro: quiet_trans silent_quiet)
        next
          case False
          with handleTightJpeg_trace [OF j] obtain msg where
            "same_session c5 c6" "trace c6 = trace c5 @ [Warned msg]"
            by auto
          from warned_then_request_quiet [OF this] s5 e False show ?thesis
            by (auto simp: q5 intro: quiet_trans)
        qed
      qed
    next
      case basic: False
      define c3 where "c3 = c2\<lparr>tightData := tight_select_stream lib cc (tightData c2)\<rparr>"
      from assms w1 True r2 basic obtain len c4 where
        l4: "tight_basic_length cc c3 = Inr (len, c4)"
        by (auto simp: handleTightEncoding_def Let_def then_do_def c3_def split: sum.splits)
      obtain res c5 where p: "read_payload len [] c4 = (res, c5)"
        by (cases "read_payload len [] c4")
      have s5: "advances (quiet (req c)) c c5"
        using s2 silent_quiet [OF tightData_update_silent, of "req c" c2]
          silent_quiet [OF tight_basic_length_silent [OF l4]]
          silent_quiet [OF read_payload_silent [OF p]]
        unfolding c3_def by (blast intro: quiet_trans)
      note q5 = advances_req [OF s5]
      show ?thesis
      proof (cases res)
        case None
        with assms w1 True r2 basic l4 p have
          "c' = framebufferUpdateRequest True QRect_default
                  (emit (Warned ''Failed to read compressed data for Tight encoding'') c5)"
          by (auto simp: handleTightEncoding_def Let_def then_do_def c3_def)
        then show ?thesis
          using quiet_trans [OF s5] warn_request_quiet [of c5] by (simp add: q5)
      next
        case (Some compressedData)
        define expectedBytes where "expectedBytes =
          int32 (uint (rect_w rect) * uint (rect_h rect)
                 * (uint (bitsPerPixel (pixelFormat c5)) div 8))"
        obtain out c6 where d: "decompressTightData lib (unat (cc AND 0x03)) compressedData
                                  expectedBytes c5 = (out, c6)"
          by (cases "decompressTightData lib (unat (cc AND 0x03)) compressedData expectedBytes c5")
        have "advances (quiet (req c)) c5 c6"
          using decompressTightData_quiet [OF d, where rb = "req c" and td = "tightData c5"]
          by (simp add: tightData_irrelevant tightData_irrelevant_right)
        with s5 have s6: "advances (quiet (req c)) c c6"
          by (blast intro: quiet_trans)
        note q6 = advances_req [OF s6]
        show ?thesis
        proof (cases "out = []")
          case True
          with assms w1 \<open>ok1\<close> r2 basic l4 p Some d have
            "c' = framebufferUpdateRequest True QRect_default
                    (emit (Warned ''Failed to decompress Tight encoded data, requesting new update'') c6)"
            by (auto simp: handleTightEncoding_def Let_def then_do_def c3_def expectedBytes_def)
          then show ?thesis
            using quiet_trans [OF s6] warn_request_quiet [of c6] by (simp add: q6)
        next
          case False
          with assms w1 \<open>ok1\<close> r2 basic l4 p Some d have
            l: "for_all [0..<unat (rect_h rect)]
                  (\<lambda>y. for_all [0..<unat (rect_w rect)] (tight_pixel rect out y)) c6 = Inr c'"
            by (auto simp: handleTightEncoding_def Let_def then_do_def c3_def expectedBytes_def)
          have "advances nothing c6 c'"
            by (rule for_all_advances [where cl = "\<lambda>c. c", OF monoidal_nothing _ l],
                rule for_all_advances [where cl = "\<lambda>c. c", OF monoidal_nothing],
                rule tight_pixel_silent)
          with s6 show ?thesis
            by (blast intro: quiet_trans silent_quiet)
        qed
      qed
    qed
  qed
qed

subsection \<open>The update loop\<close>

lemma requests_only_trans:
  "advances (requests_only rb) a b \<Longrightarrow> advances (requests_only rb) b c \<Longrightarrow>
   advances (requests_only rb) a c"
  by (rule advances_trans [OF monoidal_requests_only])

lemma quiet_to_requests_only: "advances (quiet rb) c c' \<Longrightarrow> advances (requests_only rb) c c'"
  by (rule advances_mono [OF quiet_requests_only])

lemma silent_requests_only: "advances nothing c c' \<Longrightarrow> advances (requests_only rb) c c'"
  by (rule silent_advances [OF monoidal_requests_only])

lemma update_rectangle_advances:
  assumes "update_rectangle lib i c = Inr (r, c')"
  shows "advances (requests_only (req c)) c c'"
proof (cases "bytesAvailable c < 12")
  case True
  with assms show ?thesis
    by (simp add: update_rectangle_def advances_refl [OF monoidal_requests_only])
next
  case False
  with assms obtain rect c1 enc c2 where
    a: "read_rectangle c = Inr (rect, c1)" and b: "read_be32 c1 = Inr (enc, c2)"
    by (auto simp: update_rectangle_def then_do_def split: sum.splits)
  have s2: "advances (requests_only (req c)) c c2"
    using read_rectangle_silent [OF a] read_be32_silent [OF b]
    by (blast intro: advances_nothing_trans silent_requests_only)
  note q2 = advances_req [OF s2]
  have sig: "\<And>d. advances (requests_only (req c)) d
      (emit (ImageChanged (unat (rect_x rect)) (unat (rect_y rect))
                          (unat (rect_w rect)) (unat (rect_h rect))) d)"
    by (rule emit_advances) (simp add: requests_only_no_write)
  from assms False a b consider
      d where "handleZRLEEncoding lib rect c2 = Inr d"
        "c' = emit (ImageChanged (unat (rect_x rect)) (unat (rect_y rect))
                                 (unat (rect_w rect)) (unat (rect_h rect))) d"
    | d where "handleTightEncoding lib rect c2 = Inr d"
        "c' = emit (ImageChanged (unat (rect_x rect)) (unat (rect_y rect))
                                 (unat (rect_w rect)) (unat (rect_h rect))) d"
    | d where "handleHextileEncoding rect c2 = Inr d"
        "c' = emit (ImageChanged (unat (rect_x rect)) (unat (rect_y rect))
                                 (unat (rect_w rect)) (unat (rect_h rect))) d"
    | d where "handleRawEncoding rect c2 = Inr d"
        "c' = emit (ImageChanged (unat (rect_x rect)) (unat (rect_y rect))
                                 (unat (rect_w rect)) (unat (rect_h rect))) d"
    | "c' = emit (Warned ''Unsupported encoding:'') c2"
    by (auto simp: update_rectangle_def then_do_def Let_def split: sum.splits if_splits)
  then show ?thesis
  proof cases
    case 1
    from quiet_to_requests_only [OF handleZRLEEncoding_quiet [OF 1(1)]] s2 sig [of d] 1(2)
    show ?thesis by (auto simp: q2 intro: requests_only_trans)
  next
    case 2
    from quiet_to_requests_only [OF handleTightEncoding_quiet [OF 2(1)]] s2 sig [of d] 2(2)
    show ?thesis by (auto simp: q2 intro: requests_only_trans)
  next
    case 3
    from silent_requests_only [OF handleHextileEncoding_silent [OF 3(1)]] s2 sig [of d] 3(2)
    show ?thesis by (auto intro: requests_only_trans)
  next
    case 4
    from handleRawEncoding_advances [OF 4(1)] s2 sig [of d] 4(2)
    show ?thesis by (auto simp: q2 intro: requests_only_trans)
  next
    case 5
    have "advances (requests_only (req c)) c2 (emit (Warned ''Unsupported encoding:'') c2)"
      by (rule emit_advances) (simp add: requests_only_no_write)
    with s2 5 show ?thesis by (auto intro: requests_only_trans)
  qed
qed

lemma framebufferUpdate_advances:
  assumes "framebufferUpdate lib c = Inr c'"
  shows "advances (requests_only (req c)) c c'"
proof (cases "bytesAvailable c < 3")
  case True
  with assms show ?thesis
    by (simp add: framebufferUpdate_def advances_refl [OF monoidal_requests_only])
next
  case False
  obtain padding c1 where p: "socket_read 1 c = (padding, c1)"
    by (cases "socket_read 1 c")
  from assms False p obtain n c2 r c3 where
    a: "read_be16 c1 = Inr (n, c2)"
    and l: "for_each [0..<unat n] (update_rectangle lib) c2 = Inr (r, c3)"
    and e: "c' = (if r then c3 else framebufferUpdateRequest True QRect_default c3)"
    by (auto simp: framebufferUpdate_def then_do_def split: sum.splits if_splits)
  have s2: "advances (requests_only (req c)) c c2"
    using socket_read_silent [OF p] read_be16_silent [OF a]
    by (blast intro: advances_nothing_trans silent_requests_only)
  note q2 = advances_req [OF s2]
  have "advances (requests_only (req c2)) c2 c3"
  proof (rule for_each_rel [where cl = "\<lambda>c. c"
            and R = "\<lambda>a b. advances (requests_only (req a)) a b", OF _ _ _ l])
    show "\<And>a. advances (requests_only (req a)) a a"
      by (rule advances_refl [OF monoidal_requests_only])
    show "\<And>a b d. advances (requests_only (req a)) a b \<Longrightarrow>
            advances (requests_only (req b)) b d \<Longrightarrow> advances (requests_only (req a)) a d"
      by (auto simp: advances_req intro: requests_only_trans)
    show "\<And>i s r s'. update_rectangle lib i s = Inr (r, s') \<Longrightarrow>
            advances (requests_only (req s)) s s'"
      by (rule update_rectangle_advances)
  qed
  with s2 have s3: "advances (requests_only (req c)) c c3"
    by (auto simp: q2 intro: requests_only_trans)
  note q3 = advances_req [OF s3]
  have "advances (requests_only (req c)) c3 (framebufferUpdateRequest True QRect_default c3)"
    by (rule request_advances [OF requests_only_Nil]) (simp add: q3)
  with s3 e show ?thesis
    by (auto intro: requests_only_trans)
qed

subsection \<open>Rectangle headers\<close>

lemma be16_bytes: "be16 (ucast (drop_bit 8 v)) (ucast v) = (v::16 word)"
  unfolding be16_def
proof (rule bit_word_eqI)
  fix n :: nat
  assume "n < LENGTH(16)"
  then have n: "n < 16" by simp
  consider "n < 8" | "8 \<le> n"
    by linarith
  then show "bit (push_bit 8 (ucast (ucast (drop_bit 8 v) :: byte)) OR ucast (ucast v :: byte) :: 16 word) n
             = bit v n"
    using n by cases (auto simp: bit_simps)
qed

lemma length_rectangle_bytes: "length (rectangle_bytes r) = 8"
  by (simp add: rectangle_bytes_def bytes_be16_def)

lemma length_frame_bytes:
  "length (frame_bytes (rect, enc, payload)) = 12 + length payload"
  by (simp add: frame_bytes_def length_rectangle_bytes length_bytes_be32)





lemma read_rectangle_bytes:
  assumes "isValid c" and "avail (socket c) = rectangle_bytes rect @ tl0"
  shows "read_rectangle c = Inr (rect, c\<lparr>socket := (socket c)\<lparr>avail := tl0\<rparr>\<rparr>)"
  using assms
  by (simp add: read_rectangle_def read_T_def socket_read_def rectangle_bytes_def
        bytes_be16_def be16_bytes)

lemma read_be32_bytes:
  assumes "isValid c" and "avail (socket c) = bytes_be32 enc @ tl0"
  shows "read_be32 c = Inr (enc, c\<lparr>socket := (socket c)\<lparr>avail := tl0\<rparr>\<rparr>)"
  using assms
  by (simp add: read_be32_def read_T_def socket_read_def bytes_be32_def be32_bytes)



subsection \<open>The rounds of the rectangle loop\<close>







subsection \<open>Requests and waits\<close>

lemma request_events_cong:
  "present (socket c') = present (socket c) \<Longrightarrow> connected (socket c') = connected (socket c) \<Longrightarrow>
   frameBufferWidth c' = frameBufferWidth c \<Longrightarrow> frameBufferHeight c' = frameBufferHeight c \<Longrightarrow>
   request_events c' = request_events c"
  by (simp add: request_events_def isValid_def)

lemma zrle_wait_enough: "n \<le> bytesAvailable c \<Longrightarrow> zrle_wait n c = c"
  by (subst zrle_wait.simps) simp

subsection \<open>Rounds on rectangles that cannot be decoded\<close>

lemma tile_origins_one: "0 < n \<Longrightarrow> n \<le> 64 \<Longrightarrow> tile_origins n 64 = [0]"
proof -
  assume "0 < n" "n \<le> 64"
  then have "(n + 64 - 1) div 64 = 1"
    by (simp add: div_eq_dividend_iff)
  then show ?thesis
    by (simp add: tile_origins_def)
qed

lemma one_tile_unat:
  assumes "one_tile rect"
  shows "0 < unat (rect_w rect)" "unat (rect_w rect) \<le> 64"
    "0 < unat (rect_h rect)" "unat (rect_h rect) \<le> 64"
  using assms by (simp_all add: one_tile_def word_less_nat_alt word_le_nat_alt)

lemma zrle_tiles_one_tile:
  assumes "one_tile rect"
  shows "zrle_tiles rect out c
         = (case zrle_tile rect out 0 0 (0, c) of
              Inl e \<Rightarrow> Inl e
            | Inr (returned, dataOffset, c') \<Rightarrow> Inr c')"
  using one_tile_unat [OF assms]
  by (simp add: zrle_tiles_def tile_origins_one then_do_def split: sum.splits prod.splits)

lemma zrle_tile_failure:
  assumes o: "one_tile rect" and ne: "out \<noteq> []"
  shows "out ! 0 = 0 \<Longrightarrow> length out < 1 + unat (rect_w rect) * unat (rect_h rect) * 4 \<Longrightarrow>
           zrle_tiles rect out c = Inr (emit (Warned ''ZRLE data truncated (raw data)'') c)"
    and "out ! 0 = 3 \<Longrightarrow>
           zrle_tiles rect out c
           = Inr (emit (Warned ''RLE Palette encoding (type 3) not fully implemented'') c)"
    and "out ! 0 \<noteq> 0 \<Longrightarrow> out ! 0 \<noteq> 1 \<Longrightarrow> out ! 0 \<noteq> 2 \<Longrightarrow> out ! 0 \<noteq> 3 \<Longrightarrow>
           zrle_tiles rect out c
           = Inr (emit (Warned ''Plain RLE encoding (types 8-127) not implemented'') c)"
proof -
  note u = one_tile_unat [OF o]
  have m: "min 64 (unat (rect_w rect)) = unat (rect_w rect)"
    "min 64 (unat (rect_h rect)) = unat (rect_h rect)"
    using u by simp_all
  have l: "\<not> length out \<le> 0"
    using ne by simp
  show "out ! 0 = 0 \<Longrightarrow> length out < 1 + unat (rect_w rect) * unat (rect_h rect) * 4 \<Longrightarrow>
           zrle_tiles rect out c = Inr (emit (Warned ''ZRLE data truncated (raw data)'') c)"
    using l by (simp add: zrle_tiles_one_tile [OF o] zrle_tile_def Let_def m)
  show "out ! 0 = 3 \<Longrightarrow>
           zrle_tiles rect out c
           = Inr (emit (Warned ''RLE Palette encoding (type 3) not fully implemented'') c)"
    using l by (simp add: zrle_tiles_one_tile [OF o] zrle_tile_def Let_def m)
  show "out ! 0 \<noteq> 0 \<Longrightarrow> out ! 0 \<noteq> 1 \<Longrightarrow> out ! 0 \<noteq> 2 \<Longrightarrow> out ! 0 \<noteq> 3 \<Longrightarrow>
           zrle_tiles rect out c
           = Inr (emit (Warned ''Plain RLE encoding (types 8-127) not implemented'') c)"
    using l by (simp add: zrle_tiles_one_tile [OF o] zrle_tile_def Let_def m)
qed

lemma read_payload_enough:
  assumes "n \<le> bytesAvailable c"
  shows "read_payload n acc c
         = (Some (acc @ take n (avail (socket c))),
            c\<lparr>socket := (socket c)\<lparr>avail := drop n (avail (socket c))\<rparr>\<rparr>)"
proof (cases "n = 0")
  case True
  then show ?thesis
    by (subst read_payload.simps) simp
next
  case False
  with assms have w: "wait_once_if_short 1 c = c"
    by (simp add: wait_once_if_short_def)
  define bs where "bs = take n (avail (socket c))"
  define c1 where "c1 = c\<lparr>socket := (socket c)\<lparr>avail := drop n (avail (socket c))\<rparr>\<rparr>"
  have r: "socket_read n c = (bs, c1)"
    by (simp add: socket_read_def bs_def c1_def)
  from False assms have t: "bs \<noteq> []"
    by (auto simp: bytesAvailable_def bs_def)
  from assms have l: "n - length bs = 0"
    by (simp add: bytesAvailable_def bs_def)
  have z: "read_payload 0 (acc @ bs) c1 = (Some (acc @ bs), c1)"
    by (subst read_payload.simps) simp
  have "read_payload n acc c = read_payload (n - length bs) (acc @ bs) c1"
    by (subst read_payload.simps) (simp only: False if_False w r prod.case t)
  then have "read_payload n acc c = (Some (acc @ bs), c1)"
    by (simp only: l z)
  then show ?thesis
    by (simp only: bs_def c1_def)
qed

lemma update_rectangle_frame:
  assumes v: "isValid c"
    and a: "avail (socket c) = frame_bytes (rect, enc, payload) @ tl0"
  shows "update_rectangle lib i c =
     (let c2 = c\<lparr>socket := (socket c)\<lparr>avail := payload @ tl0\<rparr>\<rparr>;
          signal = (\<lambda>c'. Inr (False, emit (signal_of (rect, enc, payload)) c'))
      in
      if sint enc = ZRLE then then_do (handleZRLEEncoding lib rect c2) signal
      else if sint enc = Tight then then_do (handleTightEncoding lib rect c2) signal
      else if sint enc = Hextile then then_do (handleHextileEncoding rect c2) signal
      else if sint enc = RawEncoding then then_do (handleRawEncoding rect c2) signal
      else Inr (False, emit (Warned ''Unsupported encoding:'') c2))"
proof -
  define c1 where "c1 = c\<lparr>socket := (socket c)\<lparr>avail := bytes_be32 enc @ payload @ tl0\<rparr>\<rparr>"
  define c2 where "c2 = c\<lparr>socket := (socket c)\<lparr>avail := payload @ tl0\<rparr>\<rparr>"
  have b: "\<not> bytesAvailable c < 12"
    using a by (simp add: bytesAvailable_def frame_bytes_def length_rectangle_bytes
        length_bytes_be32)
  have r1: "read_rectangle c = Inr (rect, c1)"
    unfolding c1_def by (rule read_rectangle_bytes [OF v]) (simp add: a frame_bytes_def)
  have v1: "isValid c1"
    using v by (simp add: c1_def isValid_def)
  have "read_be32 c1 = Inr (enc, c1\<lparr>socket := (socket c1)\<lparr>avail := payload @ tl0\<rparr>\<rparr>)"
    by (rule read_be32_bytes [OF v1]) (simp add: c1_def)
  then have r2: "read_be32 c1 = Inr (enc, c2)"
    by (simp add: c1_def c2_def)
  show ?thesis
    using b r1 r2
    by (simp add: update_rectangle_def then_do_def Let_def signal_of_def c2_def)
qed

lemma handleZRLEEncoding_bytes:
  assumes v: "isValid c"
    and a: "avail (socket c) = l0 # l1 # l2 # l3 # data @ tl0"
    and n: "unat (be32 l0 l1 l2 l3) = length data"
    and ne: "data \<noteq> []"
  shows "handleZRLEEncoding lib rect c
         = (if qUncompress lib data = []
            then Inr (c\<lparr>socket := (socket c)\<lparr>avail := tl0\<rparr>,
                        trace := trace c
                          @ [Warned ''Failed to decompress ZRLE data, requesting new update'']
                          @ request_events c\<rparr>)
            else zrle_tiles rect (qUncompress lib data) (c\<lparr>socket := (socket c)\<lparr>avail := tl0\<rparr>\<rparr>))"
proof -
  define c3 where "c3 = c\<lparr>socket := (socket c)\<lparr>avail := data @ tl0\<rparr>\<rparr>"
  define c4 where "c4 = c\<lparr>socket := (socket c)\<lparr>avail := tl0\<rparr>\<rparr>"
  have b: "\<not> bytesAvailable c < 4"
    using a by (simp add: bytesAvailable_def)
  have r3: "read_be32 c = Inr (be32 l0 l1 l2 l3, c3)"
    using v a by (simp add: read_be32_def read_T_def socket_read_def c3_def)
  have nz: "be32 l0 l1 l2 l3 \<noteq> 0"
    using n ne by auto
  have w: "zrle_wait (length data) c3 = c3"
    by (rule zrle_wait_enough) (simp add: bytesAvailable_def c3_def)
  have r4: "socket_read (length data) c3 = (data, c4)"
    by (simp add: socket_read_def c3_def c4_def)
  have re: "request_events (emit (Warned ''Failed to decompress ZRLE data, requesting new update'') c4)
            = request_events c"
    by (rule request_events_cong) (simp_all add: emit_def c4_def)
  show ?thesis
    using b r3 nz w r4
    by (simp add: handleZRLEEncoding_def then_do_def Let_def n
          framebufferUpdateRequest_incremental re)
       (simp add: emit_def c4_def)
qed

lemma handleTightEncoding_jpeg_rejected:
  assumes a: "avail (socket c) = compControl # lenByte # data @ tl0"
    and j: "compControl AND 0x0F = 0x09"
    and s: "lenByte AND 0x80 = 0"
    and n: "unat lenByte = length data"
    and l: "loadFromData lib data = None"
  shows "handleTightEncoding lib rect c
         = Inr (c\<lparr>socket := (socket c)\<lparr>avail := tl0\<rparr>,
                  trace := trace c @ [Warned ''Failed to decode JPEG data for Tight encoding'']
                           @ request_events c\<rparr>)"
proof -
  define c2 where "c2 = c\<lparr>socket := (socket c)\<lparr>avail := lenByte # data @ tl0\<rparr>\<rparr>"
  define c4 where "c4 = c\<lparr>socket := (socket c)\<lparr>avail := data @ tl0\<rparr>\<rparr>"
  define c6 where "c6 = c\<lparr>socket := (socket c)\<lparr>avail := tl0\<rparr>\<rparr>"
  have w1: "tight_wait_byte ''Timeout waiting for Tight compression control byte'' c = (True, c)"
    using a by (simp add: tight_wait_byte_def bytesAvailable_def)
  have r1: "socket_read_u8_init 0 c = (compControl, c2)"
    using a by (simp add: socket_read_u8_init_def socket_read_def c2_def)
  have w2: "tight_wait_byte ''Timeout waiting for JPEG length byte'' c2 = (True, c2)"
    by (simp add: tight_wait_byte_def bytesAvailable_def c2_def)
  have r2: "socket_read_u8_init 0 c2 = (lenByte, c4)"
    by (simp add: socket_read_u8_init_def socket_read_def c2_def c4_def)
  have t: "tight_jpeg_length lenByte c4 = Inr (length data, c4)"
    using s n by (simp add: tight_jpeg_length_def)
  have "read_payload (length data) [] c4
        = (Some ([] @ take (length data) (avail (socket c4))),
           c4\<lparr>socket := (socket c4)\<lparr>avail := drop (length data) (avail (socket c4))\<rparr>\<rparr>)"
    by (rule read_payload_enough) (simp add: bytesAvailable_def c4_def)
  then have p: "read_payload (length data) [] c4 = (Some data, c6)"
    by (simp add: c4_def c6_def)
  have h: "handleTightJpeg lib rect (length data) c4
           = (False, emit (Warned ''Failed to decode JPEG data for Tight encoding'') c6)"
    by (simp add: handleTightJpeg_def p l)
  have re: "request_events (emit (Warned ''Failed to decode JPEG data for Tight encoding'') c6)
            = request_events c"
    by (rule request_events_cong) (simp_all add: emit_def c6_def)
  show ?thesis
    using w1 r1 j w2 r2 t h
    by (simp add: handleTightEncoding_def Let_def then_do_def
          framebufferUpdateRequest_incremental re)
       (simp add: emit_def c6_def)
qed

lemma undecodable_round:
  assumes v: "isValid c"
    and a: "avail (socket c) = frame_bytes f @ tl0"
    and u: "undecodable lib f"
  shows "update_rectangle lib i c
         = Inr (False, c\<lparr>socket := (socket c)\<lparr>avail := tl0\<rparr>,
                         trace := trace c @ recovery_events lib c f\<rparr>)"
proof -
  obtain rect enc payload where f: "f = (rect, enc, payload)"
    by (cases f)
  define c2 where "c2 = c\<lparr>socket := (socket c)\<lparr>avail := payload @ tl0\<rparr>\<rparr>"
  have v2: "isValid c2"
    using v by (simp add: c2_def isValid_def)
  have re2: "request_events c2 = request_events c"
    by (rule request_events_cong) (simp_all add: c2_def)
  note ur = update_rectangle_frame [OF v a [unfolded f], of lib i, folded c2_def]
  from u obtain msg requested where fo: "failure_of lib f = Some (msg, requested)"
    by (auto simp: undecodable_def)
  have tg: "tag_of f = sint enc"
    by (simp add: f tag_of_def)
  consider (unknown) "\<not> known_tag (sint enc)"
    | (zrle) "sint enc = ZRLE"
    | (tight) "sint enc = Tight" "sint enc \<noteq> ZRLE"
    using fo by (auto simp: failure_of_def f split: if_splits)
  then show ?thesis
  proof cases
    case unknown
    with fo have p: "payload = []" and m: "msg = ''Unsupported encoding:''" "\<not> requested"
      by (auto simp: failure_of_def f split: if_splits)
    from unknown have "sint enc \<noteq> ZRLE" "sint enc \<noteq> Tight" "sint enc \<noteq> Hextile"
      "sint enc \<noteq> RawEncoding"
      by (simp_all add: known_tag_def)
    moreover have "recovery_events lib c f = [Warned ''Unsupported encoding:'']"
      using unknown by (simp add: recovery_events_def fo tg m)
    ultimately show ?thesis
      unfolding ur f [symmetric]
      by (simp add: Let_def emit_def c2_def p)
  next
    case zrle
    then have k: "known_tag (sint enc)"
      by (simp add: known_tag_def)
    from fo zrle k obtain l0 l1 l2 l3 data where
      p: "payload = l0 # l1 # l2 # l3 # data" and n: "unat (be32 l0 l1 l2 l3) = length data"
      and ne: "data \<noteq> []" and zd: "zrle_data f = Some data"
      by (auto simp: failure_of_def zrle_data_def f split: if_splits list.splits option.splits)
    have a2: "avail (socket c2) = l0 # l1 # l2 # l3 # data @ tl0"
      by (simp add: c2_def p)
    define c4 where "c4 = c\<lparr>socket := (socket c)\<lparr>avail := tl0\<rparr>\<rparr>"
    have c4: "c2\<lparr>socket := (socket c2)\<lparr>avail := tl0\<rparr>\<rparr> = c4" "trace c2 = trace c"
      by (simp_all add: c2_def c4_def)
    note hz = handleZRLEEncoding_bytes [OF v2 a2 n ne, of lib rect, unfolded c4 re2]
    define out where "out = qUncompress lib data"
    from fo zrle k zd have fo': "(if out = []
               then Some (''Failed to decompress ZRLE data, requesting new update'', True)
               else if \<not> one_tile rect then None
               else if out ! 0 = 0 then
                 (if length out < 1 + unat (rect_w rect) * unat (rect_h rect) * 4
                  then Some (''ZRLE data truncated (raw data)'', False) else None)
               else if out ! 0 = 1 \<or> out ! 0 = 2 then None
               else if out ! 0 = 3
               then Some (''RLE Palette encoding (type 3) not fully implemented'', False)
               else Some (''Plain RLE encoding (types 8-127) not implemented'', False))
              = Some (msg, requested)"
      by (simp add: failure_of_def f Let_def out_def split del: if_split cong: if_cong)
    have "handleZRLEEncoding lib rect c2
          = Inr (c4\<lparr>trace := trace c @ [Warned msg] @ (if requested then request_events c else [])\<rparr>)"
    proof (cases "out = []")
      case True
      with fo' have "msg = ''Failed to decompress ZRLE data, requesting new update''" "requested"
        by simp_all
      with True hz show ?thesis
        by (simp add: out_def c4_def)
    next
      case False
      with fo' have o: "one_tile rect"
        by (simp split: if_splits)
      note zt = zrle_tile_failure [OF o False, of c4]
      from False fo' o consider
          "out ! 0 = 0" "length out < 1 + unat (rect_w rect) * unat (rect_h rect) * 4"
            "msg = ''ZRLE data truncated (raw data)''" "\<not> requested"
        | "out ! 0 = 3" "msg = ''RLE Palette encoding (type 3) not fully implemented''"
            "\<not> requested"
        | "out ! 0 \<noteq> 0" "out ! 0 \<noteq> 1" "out ! 0 \<noteq> 2" "out ! 0 \<noteq> 3"
            "msg = ''Plain RLE encoding (types 8-127) not implemented''" "\<not> requested"
        by (auto split: if_splits)
      then show ?thesis
      proof cases
        case 1
        with False hz zt(1) show ?thesis
          by (simp add: out_def emit_def c4_def)
      next
        case 2
        with False hz zt(2) show ?thesis
          by (simp add: out_def emit_def c4_def)
      next
        case 3
        with False hz zt(3) show ?thesis
          by (simp add: out_def emit_def c4_def)
      qed
    qed
    moreover have "recovery_events lib c f
          = [Warned msg] @ (if requested then request_events c else []) @ [signal_of f]"
      using k by (simp add: recovery_events_def fo tg)
    ultimately show ?thesis
      unfolding ur f [symmetric]
      by (simp add: Let_def zrle then_do_def emit_def c4_def)
  next
    case tight
    then have k: "known_tag (sint enc)"
      by (simp add: known_tag_def)
    from fo tight k obtain cc lenByte data where
      p: "payload = cc # lenByte # data" and j: "cc AND 0x0F = 0x09"
      and s: "lenByte AND 0x80 = 0" and n: "unat lenByte = length data"
      and l: "loadFromData lib data = None"
      and m: "msg = ''Failed to decode JPEG data for Tight encoding''" "requested"
      by (auto simp: failure_of_def f split: if_splits list.splits)
    have a2: "avail (socket c2) = cc # lenByte # data @ tl0"
      by (simp add: c2_def p)
    note ht = handleTightEncoding_jpeg_rejected [OF a2 j s n l, of rect, unfolded re2]
    have "recovery_events lib c f
          = [Warned ''Failed to decode JPEG data for Tight encoding''] @ request_events c
            @ [signal_of f]"
      using k by (simp add: recovery_events_def fo tg m)
    then show ?thesis
      unfolding ur f [symmetric]
      using tight by (simp add: Let_def then_do_def ht emit_def) (simp add: c2_def)
  qed
qed


lemma undecodable_in_step:
  assumes "isValid c"
    and "avail (socket c) = concat (map frame_bytes fs) @ rest"
    and "\<forall>f \<in> set fs. undecodable lib f"
  shows "in_step lib fs c"
  using assms
proof (induction fs arbitrary: c)
  case Nil
  then show ?case by simp
next
  case (Cons f fs)
  define c1 where "c1 = c\<lparr>socket := (socket c)\<lparr>avail := concat (map frame_bytes fs) @ rest\<rparr>,
                          trace := trace c @ recovery_events lib c f\<rparr>"
  have u: "update_rectangle lib 0 c = Inr (False, c1)"
    unfolding c1_def
    by (rule undecodable_round [OF Cons.prems(1)]) (use Cons.prems in simp_all)
  have v1: "isValid c1"
    using Cons.prems(1) by (simp add: c1_def isValid_def)
  have a1: "avail (socket c1) = concat (map frame_bytes fs) @ rest"
    by (simp add: c1_def)
  have s: "stream c1 = drop (length (frame_bytes f)) (stream c)"
    using Cons.prems(2) by (simp add: stream_def c1_def)
  from Cons.prems(3) have all: "\<forall>f \<in> set fs. undecodable lib f"
    by simp
  from Cons.IH [OF v1 a1 all] u s show ?case
    by simp
qed

subsection \<open>ZRLE and the zlib contexts\<close>

lemma for_all_commute:
  assumes "\<And>i s. body i (G s) = map_sum id G (body i s)"
  shows "for_all xs body (G s) = map_sum id G (for_all xs body s)"
  by (induction xs arbitrary: s) (auto simp: assms split: sum.splits)

lemma for_each_commute:
  assumes "\<And>i s. body i (G s) = map_sum id (map_prod id G) (body i s)"
  shows "for_each xs body (G s) = map_sum id (map_prod id G) (for_each xs body s)"
  by (induction xs arbitrary: s) (auto simp: assms split: sum.splits)

lemma put_with_streams: "put px py colour (with_streams td c) = with_streams td (put px py colour c)"
  by (simp add: put_def with_streams_def)

lemma emit_with_streams: "emit e (with_streams td c) = with_streams td (emit e c)"
  by (simp add: emit_def with_streams_def)

lemma pixelFormat_with_streams: "pixelFormat (with_streams td c) = pixelFormat c"
  by (simp add: with_streams_def)

lemma bytesAvailable_with_streams: "bytesAvailable (with_streams td c) = bytesAvailable c"
  by (simp add: with_streams_def bytesAvailable_def)

lemma waitForReadyRead_with_streams:
  "waitForReadyRead (with_streams td c) = map_prod id (with_streams td) (waitForReadyRead c)"
  by (simp add: waitForReadyRead_def with_streams_def split: list.splits)

lemma socket_read_with_streams:
  "socket_read n (with_streams td c) = map_prod id (with_streams td) (socket_read n c)"
  by (simp add: socket_read_def with_streams_def)

lemma read_be32_with_streams:
  "read_be32 (with_streams td c) = map_sum id (map_prod id (with_streams td)) (read_be32 c)"
  by (simp add: read_be32_def read_T_def socket_read_def isValid_def with_streams_def
           split: list.splits)

lemma request_with_streams:
  "framebufferUpdateRequest True QRect_default (with_streams td c)
   = with_streams td (framebufferUpdateRequest True QRect_default c)"
  by (simp add: framebufferUpdateRequest_incremental request_events_def isValid_def
      with_streams_def)

lemma zrle_wait_with_streams: "zrle_wait n (with_streams td c) = with_streams td (zrle_wait n c)"
proof (induction n c rule: zrle_wait.induct)
  case (1 n c)
  show ?case
  proof (cases "bytesAvailable c < n")
    case False
    then show ?thesis
      by (subst (1 2) zrle_wait.simps) (simp add: bytesAvailable_with_streams)
  next
    case True
    obtain ok c1 where w: "waitForReadyRead c = (ok, c1)"
      by (cases "waitForReadyRead c")
    show ?thesis
    proof (cases ok)
      case ok: True
      from 1 [OF True w [symmetric] ok] True w ok show ?thesis
        by (subst (1 2) zrle_wait.simps)
           (simp add: bytesAvailable_with_streams waitForReadyRead_with_streams)
    next
      case False
      with True w show ?thesis
        by (subst (1 2) zrle_wait.simps)
           (simp add: bytesAvailable_with_streams waitForReadyRead_with_streams
                 emit_with_streams)
    qed
  qed
qed

lemma zrle_raw_pixel_with_streams:
  "zrle_raw_pixel rect data tx ty y x (map_prod id (with_streams td) s)
   = map_sum id (map_prod id (with_streams td)) (zrle_raw_pixel rect data tx ty y x s)"
  by (cases s)
     (simp add: zrle_raw_pixel_def Let_def then_do_def pixelFormat_with_streams
           put_with_streams split: sum.splits)

lemma zrle_packed_pixel_with_streams:
  "zrle_packed_pixel rect data off palette bits tx ty y x
     (map_prod id (map_prod id (with_streams td)) s)
   = map_sum id (map_prod id (map_prod id (with_streams td)))
       (zrle_packed_pixel rect data off palette bits tx ty y x s)"
  by (cases s)
     (simp add: zrle_packed_pixel_def Let_def then_do_def put_with_streams split: sum.splits)

lemma zrle_packed_row_with_streams:
  "zrle_packed_row rect data off palette bits tx ty tw y
     (map_prod id (map_prod id (with_streams td)) s)
   = map_sum id (map_prod id (map_prod id (with_streams td)))
       (zrle_packed_row rect data off palette bits tx ty tw y s)"
proof -
  obtain byteOffset bitOffset c where s: "s = (byteOffset, bitOffset, c)"
    by (cases s) auto
  have "for_all [0..<tw] (zrle_packed_pixel rect data off palette bits tx ty y)
          (map_prod id (map_prod id (with_streams td)) (byteOffset, 0, c))
        = map_sum id (map_prod id (map_prod id (with_streams td)))
            (for_all [0..<tw] (zrle_packed_pixel rect data off palette bits tx ty y)
               (byteOffset, 0, c))"
    by (rule for_all_commute) (rule zrle_packed_pixel_with_streams)
  then show ?thesis
    by (auto simp: s zrle_packed_row_def then_do_def split: sum.splits)
qed

lemma then_do_map_sum:
  "then_do (map_sum id G x) k = (case x of Inl e \<Rightarrow> Inl e | Inr s \<Rightarrow> k (G s))"
  by (cases x) (simp_all add: then_do_def)

lemma zrle_tile_with_streams:
  "zrle_tile rect data ty tx (map_prod id (with_streams td) s)
   = map_sum id (map_prod id (map_prod id (with_streams td))) (zrle_tile rect data ty tx s)"
proof -
  obtain dataOffset c where s: "s = (dataOffset, c)"
    by (cases s)
  have raw: "for_all [0..<th]
               (\<lambda>y. for_all [0..<tw] (zrle_raw_pixel rect data tx ty y))
               (off, with_streams td c)
             = map_sum id (map_prod id (with_streams td))
                 (for_all [0..<th] (\<lambda>y. for_all [0..<tw] (zrle_raw_pixel rect data tx ty y))
                    (off, c))" for th tw off
    using for_all_commute [where G = "map_prod id (with_streams td)"
        and body = "\<lambda>y. for_all [0..<tw] (zrle_raw_pixel rect data tx ty y)"
        and s = "(off, c)" and xs = "[0..<th]",
        OF for_all_commute, OF zrle_raw_pixel_with_streams]
    by simp
  have packed: "for_all [0..<th]
               (zrle_packed_row rect data off palette bits tx ty tw)
               (0, 0, with_streams td c)
             = map_sum id (map_prod id (map_prod id (with_streams td)))
                 (for_all [0..<th] (zrle_packed_row rect data off palette bits tx ty tw)
                    (0, 0, c))" for th tw off palette bits
    using for_all_commute [where G = "map_prod id (map_prod id (with_streams td))"
        and body = "zrle_packed_row rect data off palette bits tx ty tw"
        and s = "(0, 0, c)" and xs = "[0..<th]",
        OF zrle_packed_row_with_streams]
    by simp
  have img: "\<And>i. (with_streams td c)\<lparr>image := i\<rparr> = with_streams td (c\<lparr>image := i\<rparr>)"
    "image (with_streams td c) = image c"
    by (simp_all add: with_streams_def)
  note pf = pixelFormat_with_streams [of td c]
  consider (short) "dataOffset \<ge> length data"
    | (rawtile) "dataOffset < length data" "data ! dataOffset = 0"
    | (solid) "dataOffset < length data" "data ! dataOffset = 1"
    | (packedtile) "dataOffset < length data" "data ! dataOffset = 2"
    | (rle) "dataOffset < length data" "data ! dataOffset = 3"
    | (other) "dataOffset < length data" "data ! dataOffset \<noteq> 0" "data ! dataOffset \<noteq> 1"
        "data ! dataOffset \<noteq> 2" "data ! dataOffset \<noteq> 3"
    by fastforce
  then show ?thesis
  proof cases
    case short
    then show ?thesis
      by (simp add: s zrle_tile_def Let_def emit_with_streams)
  next
    case rawtile
    then show ?thesis
      apply (simp add: s zrle_tile_def Let_def emit_with_streams pf raw then_do_map_sum)
      apply (simp add: then_do_def split: sum.splits)
      done
  next
    case solid
    then show ?thesis
      apply (simp add: s zrle_tile_def Let_def emit_with_streams pf img)
      apply (simp add: then_do_def img split: sum.splits)
      done
  next
    case packedtile
    define th where "th = min 64 (unat (rect_h rect) - ty)"
    define tw where "tw = min 64 (unat (rect_w rect) - tx)"
    define n where "n = unat (data ! (dataOffset + 1))"
    define bits :: nat where
      "bits = (if n \<le> 2 then 1 else if n \<le> 4 then 2 else if n \<le> 16 then 4 else 8)"
    define rows where "rows = (\<lambda>d :: 'a Private.
       for_all [0..<th]
         (zrle_packed_row rect data (dataOffset + 1 + 1 + 4 * n)
            (zrle_palette (pixelFormat c) data (dataOffset + 1 + 1) n) bits tx ty tw)
         (0, 0, d))"
    have rows: "rows (with_streams td c)
                = map_sum id (map_prod id (map_prod id (with_streams td))) (rows c)"
      unfolding rows_def by (rule packed)
    have e: "\<And>d. zrle_tile rect data ty tx (dataOffset, d) =
       (if dataOffset + 1 \<ge> length data
        then Inr (False, dataOffset + 1, emit (Warned ''ZRLE data truncated (palette size)'') d)
        else if n = 0 \<or> dataOffset + 1 + 1 + n * 4 > length data
        then Inr (False, dataOffset + 1 + 1, emit (Warned ''ZRLE data truncated (palette colors)'') d)
        else if dataOffset + 1 + 1 + 4 * n + (tw * bits + 7) div 8 * th > length data
        then Inr (False, dataOffset + 1 + 1 + 4 * n,
                  emit (Warned ''ZRLE data truncated (packed data)'') d)
        else then_do (for_all [0..<th]
                        (zrle_packed_row rect data (dataOffset + 1 + 1 + 4 * n)
                           (zrle_palette (pixelFormat d) data (dataOffset + 1 + 1) n) bits tx ty tw)
                        (0, 0, d))
               (\<lambda>(byteOffset, bitOffset, c1).
                   Inr (False, dataOffset + 1 + 1 + 4 * n + (tw * bits + 7) div 8 * th, c1)))"
      using packedtile
      by (simp add: zrle_tile_def Let_def th_def tw_def n_def bits_def
               split del: if_split cong: if_cong)
    have rows_eq: "\<And>d. for_all [0..<th]
         (zrle_packed_row rect data (dataOffset + 1 + 1 + 4 * n)
            (zrle_palette (pixelFormat c) data (dataOffset + 1 + 1) n) bits tx ty tw)
         (0, 0, d) = rows d"
      by (simp add: rows_def)
    show ?thesis
      unfolding s
      apply (simp only: map_prod_simp id_apply e pf rows_eq rows)
      apply (cases "rows c")
       apply (simp_all add: then_do_def emit_with_streams split: prod.splits)
      done
  next
    case rle
    then show ?thesis
      by (simp add: s zrle_tile_def Let_def emit_with_streams)
  next
    case other
    then show ?thesis
      by (simp add: s zrle_tile_def Let_def emit_with_streams)
  qed
qed

lemma zrle_tiles_with_streams:
  "zrle_tiles rect data (with_streams td c) = map_sum id (with_streams td) (zrle_tiles rect data c)"
proof -
  have "for_each (tile_origins (unat (rect_h rect)) 64)
          (\<lambda>ty. for_each (tile_origins (unat (rect_w rect)) 64) (zrle_tile rect data ty))
          (map_prod id (with_streams td) (0, c))
        = map_sum id (map_prod id (map_prod id (with_streams td)))
            (for_each (tile_origins (unat (rect_h rect)) 64)
               (\<lambda>ty. for_each (tile_origins (unat (rect_w rect)) 64) (zrle_tile rect data ty))
               (0, c))"
    by (rule for_each_commute, rule for_each_commute, rule zrle_tile_with_streams)
  then show ?thesis
    by (auto simp: zrle_tiles_def then_do_def split: sum.splits)
qed

lemma handleZRLEEncoding_with_streams:
  "handleZRLEEncoding lib rect (with_streams td c)
   = map_sum id (with_streams td) (handleZRLEEncoding lib rect c)"
proof (cases "bytesAvailable c < 4")
  case True
  then show ?thesis
    by (simp add: handleZRLEEncoding_def bytesAvailable_with_streams)
next
  case False
  show ?thesis
  proof (cases "read_be32 c")
    case (Inl e)
    with False show ?thesis
      by (simp add: handleZRLEEncoding_def bytesAvailable_with_streams read_be32_with_streams
            then_do_def)
  next
    case (Inr p)
    obtain len c1 where p: "p = (len, c1)"
      by (cases p)
    obtain compressedData c2 where
      r: "socket_read (unat len) (zrle_wait (unat len) c1) = (compressedData, c2)"
      by (cases "socket_read (unat len) (zrle_wait (unat len) c1)")
    have r': "socket_read (unat len) (zrle_wait (unat len) (with_streams td c1))
              = (compressedData, with_streams td c2)"
      by (simp add: zrle_wait_with_streams socket_read_with_streams r)
    from False Inr p r r' show ?thesis
      by (simp add: handleZRLEEncoding_def bytesAvailable_with_streams read_be32_with_streams
            then_do_def Let_def request_with_streams emit_with_streams zrle_tiles_with_streams)
  qed
qed

lemma handleZRLEEncoding_qUncompress:
  "qUncompress lib' = qUncompress lib \<Longrightarrow>
   handleZRLEEncoding lib' rect c = handleZRLEEncoding lib rect c"
  unfolding handleZRLEEncoding_def by (simp only:)


lemma with_streams_same: "with_streams (tightData c) c = c"
  by (simp add: with_streams_def)

lemma handleZRLEEncoding_keeps_streams:
  assumes "handleZRLEEncoding lib rect c = Inr c'"
  shows "tightData c' = tightData c"
proof -
  from handleZRLEEncoding_with_streams [of lib rect "tightData c" c] assms
  have "c' = with_streams (tightData c) c'"
    by (simp add: with_streams_same)
  then have "tightData c' = tightData (with_streams (tightData c) c')"
    by simp
  then show ?thesis
    by (simp add: with_streams_def)
qed

lemma handleZRLEEncoding_payload:
  assumes v: "isValid c"
    and a: "avail (socket c) = bytes_be32 len @ data @ rest"
    and n: "unat len = length data"
    and ne: "data \<noteq> []"
  shows "handleZRLEEncoding lib rect c
         = (if qUncompress lib data = []
            then Inr (c\<lparr>socket := (socket c)\<lparr>avail := rest\<rparr>,
                        trace := trace c
                          @ [Warned ''Failed to decompress ZRLE data, requesting new update'']
                          @ request_events c\<rparr>)
            else zrle_tiles rect (qUncompress lib data) (c\<lparr>socket := (socket c)\<lparr>avail := rest\<rparr>\<rparr>))"
proof -
  define c3 where "c3 = c\<lparr>socket := (socket c)\<lparr>avail := data @ rest\<rparr>\<rparr>"
  define c4 where "c4 = c\<lparr>socket := (socket c)\<lparr>avail := rest\<rparr>\<rparr>"
  have b: "\<not> bytesAvailable c < 4"
    using a by (simp add: bytesAvailable_def length_bytes_be32)
  have r3: "read_be32 c = Inr (len, c3)"
    unfolding c3_def by (rule read_be32_bytes [OF v a])
  have nz: "len \<noteq> 0"
    using n ne by auto
  have w: "zrle_wait (length data) c3 = c3"
    by (rule zrle_wait_enough) (simp add: bytesAvailable_def c3_def)
  have r4: "socket_read (length data) c3 = (data, c4)"
    by (simp add: socket_read_def c3_def c4_def)
  have re: "request_events (emit (Warned ''Failed to decompress ZRLE data, requesting new update'') c4)
            = request_events c"
    by (rule request_events_cong) (simp_all add: emit_def c4_def)
  show ?thesis
    using b r3 nz w r4
    by (simp add: handleZRLEEncoding_def then_do_def Let_def n
          framebufferUpdateRequest_incremental re)
       (simp add: emit_def c4_def)
qed

section \<open>Version handshake\<close>

lemma version_lengths:
  "length version33 = 12" "length version37 = 12" "length version38 = 12"
  by (simp_all add: version33_def version37_def version38_def ascii_def)

text \<open>
  C6 (as the code has it). With the version still unknown and at least 12 bytes
  available, \<open>parseProtocolVersion\<close> takes exactly the first 12 bytes. For each of the
  three recognised strings the client stores version 3.3, writes the 12 bytes
  \<open>RFB 003.003\n\<close> and moves to \<open>SecurityState\<close>. For any other 12 bytes it logs a
  warning and nothing else: nothing is written, the socket stays connected and the
  engine stays in the state it was in, where the next 12 bytes are read as a version
  string again.
\<close>

theorem parseProtocolVersion_reply:
  assumes "protocolVersion c = ProtocolVersionUnknown"
    and "connected (socket c)"
    and "avail (socket c) = v @ rest"
    and "length v = 12"
  shows "avail (socket (parseProtocolVersion c)) = rest
       \<and> (v \<in> {version33, version37, version38} \<longrightarrow>
            trace (parseProtocolVersion c) = trace c @ [Wrote version33]
          \<and> state (parseProtocolVersion c) = SecurityState
          \<and> protocolVersion (parseProtocolVersion c) = ProtocolVersion33)
       \<and> (v \<notin> {version33, version37, version38} \<longrightarrow>
            trace (parseProtocolVersion c) = trace c @ [Warned ''Unsupported protocol version:'']
          \<and> state (parseProtocolVersion c) = state c
          \<and> protocolVersion (parseProtocolVersion c) = ProtocolVersionUnknown
          \<and> connected (socket (parseProtocolVersion c)))"
  using assms
  by (auto simp: parseProtocolVersion_def bytesAvailable_def socket_read_def
      setProtocolVersion_def protocolVersionChanged_def socket_write_def emit_def)

theorem parseProtocolVersion_reply_witness:
  "avail (socket (parseProtocolVersion (fresh_client (version38 @ [0, 0, 0, 1]) []))) = [0, 0, 0, 1]
   \<and> trace (parseProtocolVersion (fresh_client (version38 @ [0, 0, 0, 1]) [])) = [Wrote version33]
   \<and> state (parseProtocolVersion (fresh_client (version38 @ [0, 0, 0, 1]) [])) = SecurityState
   \<and> protocolVersion (parseProtocolVersion (fresh_client (version38 @ [0, 0, 0, 1]) []))
       = ProtocolVersion33"
  using parseProtocolVersion_reply
          [of "fresh_client (version38 @ [0, 0, 0, 1]) []" version38 "[0, 0, 0, 1]"]
  by (simp add: fresh_client_def version_lengths)

text \<open>
  The claim fails where it says that any other 12-byte string fails the connection:
  after the unknown string \<open>RFB 003.009\n\<close> the engine is still connected and still
  in \<open>ProtocolVersionState\<close>, and when \<open>RFB 003.003\n\<close> follows, the next \<open>read()\<close>
  answers it and goes on to \<open>SecurityState\<close>.
\<close>

theorem unknown_version_counterexample:
  "state (parseProtocolVersion
            (fresh_client (ascii (''RFB 003.009'' @ [CHR 0x0A]) @ version33) []))
     = ProtocolVersionState
   \<and> connected (socket (parseProtocolVersion
            (fresh_client (ascii (''RFB 003.009'' @ [CHR 0x0A]) @ version33) [])))
   \<and> (case read stored_lib (parseProtocolVersion
            (fresh_client (ascii (''RFB 003.009'' @ [CHR 0x0A]) @ version33) [])) of
         Inr c' \<Rightarrow> state c' = SecurityState
                  \<and> trace c' = [Warned ''Unsupported protocol version:'', Wrote version33]
       | Inl e \<Rightarrow> False)"
  by (simp add: read_def parseProtocolVersion_def bytesAvailable_def socket_read_def
      setProtocolVersion_def protocolVersionChanged_def socket_write_def emit_def
      fresh_client_def version33_def version37_def version38_def ascii_def)

section \<open>Key events\<close>

text \<open>
  C10. On a connected socket every key event writes the eight bytes of a KeyEvent
  message: the type 4, the down flag, two padding bytes (two spaces) and four bytes of
  key symbol in big-endian order. The key symbol is the entry of the key map when the
  key has one, else the first code unit of the text when there is text, and else the
  value \<open>code0\<close> that the local variable happened to hold: it was never assigned. In
  that last case the bytes follow \<open>code0\<close>, so the event does not determine them.
\<close>

theorem keyEvent_message:
  assumes "isValid c"
  shows "(\<exists>code. wire (trace (keyEvent code0 e c))
                 = wire (trace c) @ [0x04, if isKeyPress e then 1 else 0, 0x20, 0x20]
                   @ bytes_be32 code)
       \<and> length (wire (trace (keyEvent code0 e c))) = length (wire (trace c)) + 8
       \<and> (\<forall>k. keyMap c (key e) = Some k \<longrightarrow>
              wire (trace (keyEvent code0 e c))
              = wire (trace c) @ [0x04, if isKeyPress e then 1 else 0, 0x20, 0x20]
                @ bytes_be32 k)
       \<and> (\<forall>ch rest. keyMap c (key e) = None \<and> text_of e = ch # rest \<longrightarrow>
              wire (trace (keyEvent code0 e c))
              = wire (trace c) @ [0x04, if isKeyPress e then 1 else 0, 0x20, 0x20]
                @ bytes_be32 (ucast ch))
       \<and> (keyMap c (key e) = None \<and> text_of e = [] \<longrightarrow>
              wire (trace (keyEvent code0 e c))
              = wire (trace c) @ [0x04, if isKeyPress e then 1 else 0, 0x20, 0x20]
                @ bytes_be32 code0
            \<and> (\<forall>code1. code1 \<noteq> code0 \<longrightarrow>
                   wire (trace (keyEvent code1 e c)) \<noteq> wire (trace (keyEvent code0 e c))))"
proof -
  have v: "present (socket c)" "connected (socket c)"
    using assms by (simp_all add: isValid_def)
  have w: "\<And>code1. wire (trace (keyEvent code1 e c))
            = wire (trace c) @ [0x04, if isKeyPress e then 1 else 0, 0x20, 0x20]
              @ bytes_be32 (case keyMap c (key e) of
                              Some k \<Rightarrow> k
                            | None \<Rightarrow> (case text_of e of ch # rest \<Rightarrow> ucast ch | [] \<Rightarrow> code1))"
    using v
    by (simp add: keyEvent_def write_T_def isValid_def socket_write_def emit_def
        wire_append ascii_def Let_def)
  have inj: "\<And>code1. code1 \<noteq> code0 \<Longrightarrow> bytes_be32 code1 \<noteq> bytes_be32 code0"
    using bytes_be32_inj by blast
  show ?thesis
    by (auto simp: w length_bytes_be32 dest: inj)
qed

theorem keyEvent_message_witness:
  "isValid (fresh_client [] [])
   \<and> wire (trace (keyEvent 0x12345678 \<lparr>isKeyPress = True, key = 0x01000060, text_of = []\<rparr>
                      (fresh_client [] [])))
     = [0x04, 0x01, 0x20, 0x20, 0x12, 0x34, 0x56, 0x78]
   \<and> wire (trace (keyEvent 0 \<lparr>isKeyPress = True, key = 0x01000060, text_of = []\<rparr>
                      (fresh_client [] [])))
     \<noteq> wire (trace (keyEvent 0x12345678 \<lparr>isKeyPress = True, key = 0x01000060, text_of = []\<rparr>
                      (fresh_client [] [])))"
proof -
  let ?e = "\<lparr>isKeyPress = True, key = 0x01000060, text_of = []\<rparr>"
  let ?c = "fresh_client [] []"
  have v: "isValid ?c"
    by (simp add: isValid_def fresh_client_def)
  have k: "keyMap ?c (key ?e) = None \<and> text_of ?e = []"
    by (simp add: fresh_client_def)
  from keyEvent_message [OF v, of "0x12345678" ?e] k
  have a: "wire (trace (keyEvent 0x12345678 ?e ?c))
           = wire (trace ?c) @ [0x04, if isKeyPress ?e then 1 else 0, 0x20, 0x20]
             @ bytes_be32 0x12345678"
    and b: "\<forall>code1. code1 \<noteq> 0x12345678 \<longrightarrow>
              wire (trace (keyEvent code1 ?e ?c)) \<noteq> wire (trace (keyEvent 0x12345678 ?e ?c))"
    by blast+
  have t: "wire (trace ?c) = []"
    by (simp add: fresh_client_def)
  have bs: "bytes_be32 0x12345678 = [0x12, 0x34, 0x56, 0x78]"
    by (simp add: bytes_be32_def)
  from b have b': "wire (trace (keyEvent 0 ?e ?c)) \<noteq> wire (trace (keyEvent 0x12345678 ?e ?c))"
    by simp
  from a have a': "wire (trace (keyEvent 0x12345678 ?e ?c)) = [0x04, 0x01, 0x20, 0x20, 0x12, 0x34, 0x56, 0x78]"
    by (simp only: t bs) simp
  show ?thesis
    using v a' b' by blast
qed

section \<open>The length field of Tight\<close>

text \<open>
  C3 (as the code has it). With three bytes \<open>b1\<close>, \<open>b2\<close>, \<open>b3\<close> available:
  in the JPEG path, after the first length byte \<open>b0\<close>, a clear top bit makes \<open>b0\<close> the
  length and reads nothing more (this is where the code and the specification agree);
  a set top bit reads two more bytes and the length is the big-endian number
  \<open>(b0 & 0x7F) << 16 | b1 << 8 | b2\<close>. In the zlib path the control byte \<open>cc\<close>
  decides: with bit 7 clear the length is the one byte \<open>b1\<close>, whatever its top bit;
  with bit 7 set it is the big-endian number of the three bytes.
\<close>

theorem tight_length_decoding:
  assumes "avail (socket c) = b1 # b2 # b3 # rest"
  shows "(b0 AND 0x80 = 0 \<longrightarrow>
            length_and_rest (tight_jpeg_length b0 c) = Some (unat b0, b1 # b2 # b3 # rest)
          \<and> length_and_rest (tight_jpeg_length b0 c) = spec_tight_length (b0 # avail (socket c)))
       \<and> (b0 AND 0x80 \<noteq> 0 \<longrightarrow>
            length_and_rest (tight_jpeg_length b0 c)
            = Some (65536 * unat (b0 AND 0x7F) + 256 * unat b1 + unat b2, b3 # rest))
       \<and> (cc AND 0x80 = 0 \<longrightarrow>
            length_and_rest (tight_basic_length cc c) = Some (unat b1, b2 # b3 # rest))
       \<and> (cc AND 0x80 \<noteq> 0 \<longrightarrow>
            length_and_rest (tight_basic_length cc c)
            = Some (65536 * unat b1 + 256 * unat b2 + unat b3, rest))"
  using assms
  by (simp add: tight_jpeg_length_def tight_basic_length_def length_and_rest_def
      wait_once_if_short_def bytesAvailable_def socket_read_u8_def socket_read_def
      then_do_def unat_3bytes)

theorem tight_length_decoding_witness:
  "length_and_rest (tight_jpeg_length 0x05 (fresh_client [0x01, 0x02, 0x03] []))
     = Some (5, [0x01, 0x02, 0x03])
   \<and> length_and_rest (tight_jpeg_length 0x81 (fresh_client [0x01, 0x02, 0x03] []))
     = Some (65794, [0x03])
   \<and> length_and_rest (tight_basic_length 0x00 (fresh_client [0x81, 0x02, 0x03] []))
     = Some (129, [0x02, 0x03])
   \<and> length_and_rest (tight_basic_length 0x80 (fresh_client [0x01, 0x02, 0x03] []))
     = Some (66051, [])"
proof -
  have a: "avail (socket (fresh_client [0x01, 0x02, 0x03] [])) = 0x01 # 0x02 # 0x03 # []"
    and b: "avail (socket (fresh_client [0x81, 0x02, 0x03] [])) = 0x81 # 0x02 # 0x03 # []"
    by (simp_all add: fresh_client_def)
  show ?thesis
    using tight_length_decoding [OF a, of "0x05" "0x80"] tight_length_decoding [OF a, of "0x81" "0x80"]
      tight_length_decoding [OF b, of "0x05" "0x00"]
    by simp
qed

text \<open>
  The claim fails on both paths. In the JPEG path the bytes 0x81 0x01 0x00 are, by the
  continuation scheme, the length 129 in two bytes; the code reads all three and takes
  65792. In the zlib path with control byte 0 the bytes 0x81 0x02 are the length 257 by
  the scheme; the code takes the single byte 0x81, the length 129, and leaves 0x02.
\<close>

theorem tight_length_counterexample:
  "length_and_rest (tight_jpeg_length 0x81 (fresh_client [0x01, 0x00, 0x55] []))
     = Some (65792, [0x55])
   \<and> spec_tight_length [0x81, 0x01, 0x00, 0x55] = Some (129, [0x00, 0x55])
   \<and> length_and_rest (tight_basic_length 0x00 (fresh_client [0x81, 0x02] []))
     = Some (129, [0x02])
   \<and> spec_tight_length [0x81, 0x02] = Some (257, [])"
  by (simp add: tight_jpeg_length_def tight_basic_length_def length_and_rest_def
      wait_once_if_short_def bytesAvailable_def socket_read_u8_def socket_read_def
      then_do_def fresh_client_def)

section \<open>The zlib streams of Tight\<close>




section \<open>The byte order of Raw pixels\<close>

text \<open>
  C7 (as the code has it). With a format of 32 bits per pixel and four bytes
  available, the body of the Raw pixel loop reads the four bytes as a little-endian
  word, whatever the big-endian flag of the pixel format says, and sets the pixel at
  the rectangle's origin plus (x, y) to the colour of that word. Nothing is logged or
  written, and the loop goes on.
\<close>

theorem raw_pixel_little_endian:
  assumes "isValid c"
    and "bitsPerPixel (pixelFormat c) = 32"
    and "avail (socket c) = b0 # b1 # b2 # b3 # rest"
  shows "\<exists>c'. raw_pixel rect y x c = Inr (False, c')
            \<and> avail (socket c') = rest
            \<and> image c' = setPixel (unat (rect_x rect) + x) (unat (rect_y rect) + y)
                             (pixel_rgb (pixelFormat c) (le32 b0 b1 b2 b3)) (image c)
            \<and> trace c' = trace c
            \<and> (bigEndianFlag (pixelFormat c) = 0 \<longrightarrow>
                 le32 b0 b1 b2 b3 = spec_raw_word (pixelFormat c) b0 b1 b2 b3)"
  using assms
  by (simp add: raw_pixel_def read_le32_def read_T_def socket_read_def then_do_def put_def
      spec_raw_word_def)

theorem raw_pixel_little_endian_witness:
  "raw_pixel \<lparr>rect_x = 1, rect_y = 2, rect_w = 1, rect_h = 1\<rparr> 0 0
      (waiting_client (rgb32_format 1) 4 4 [0x00, 0x00, 0xFF, 0x00, 0x07] [])
   = Inr (False,
          (waiting_client (rgb32_format 1) 4 4 [0x07] [])
            \<lparr>image := setPixel 1 2 0xFFFF0000 (fill white (QImage_new 4 4))\<rparr>)"
proof -
  let ?c = "waiting_client (rgb32_format 1) 4 4 [0x00, 0x00, 0xFF, 0x00, 0x07] []"
  let ?rect = "\<lparr>rect_x = 1, rect_y = 2, rect_w = 1, rect_h = 1\<rparr>"
  have v: "isValid ?c" and b: "bitsPerPixel (pixelFormat ?c) = 32"
    and a: "avail (socket ?c) = 0x00 # 0x00 # 0xFF # 0x00 # [0x07]"
    by (simp_all add: isValid_def waiting_client_def rgb32_format_def)
  have p: "pixel_rgb (pixelFormat ?c) (le32 0x00 0x00 0xFF 0x00) = 0xFFFF0000"
    by (simp add: waiting_client_def rgb32_format_def pixel_rgb_def le32_def be32_def qRgb_def)
  from raw_pixel_little_endian [OF v b a, of ?rect 0 0] obtain c' where
    r: "raw_pixel ?rect 0 0 ?c = Inr (False, c')"
    and i: "image c' = setPixel 1 2 0xFFFF0000 (image ?c)"
    by (auto simp: p)
  from r have "c' = ?c\<lparr>socket := (socket ?c)\<lparr>avail := [0x07]\<rparr>, image := image c'\<rparr>"
    by (auto simp: raw_pixel_def read_le32_def read_T_def socket_read_def then_do_def put_def
        isValid_def waiting_client_def rgb32_format_def)
  with r i show ?thesis
    by (simp add: waiting_client_def)
qed

text \<open>
  The claim fails for a format whose big-endian flag is set: the bytes 00 00 FF 00 are
  the big-endian word 0x0000FF00, which is green, and the Raw decoder writes the colour
  of the little-endian word 0x00FF0000, which is red.
\<close>

theorem raw_big_endian_counterexample:
  "bigEndianFlag (rgb32_format 1) \<noteq> 0
   \<and> pixel_rgb (rgb32_format 1) (spec_raw_word (rgb32_format 1) 0x00 0x00 0xFF 0x00) = 0xFF00FF00
   \<and> (case handleRawEncoding \<lparr>rect_x = 0, rect_y = 0, rect_w = 1, rect_h = 1\<rparr>
              (waiting_client (rgb32_format 1) 4 4 [0x00, 0x00, 0xFF, 0x00] []) of
         Inr c' \<Rightarrow> pixels (image c') (0, 0) = 0xFFFF0000
       | Inl e \<Rightarrow> False)"
  by code_simp

section \<open>Pixel formats that are not 32 bits wide\<close>

text \<open>
  C9. The Hextile decoder has no path that gives up on a pixel format that is not 32
  bits wide. With a format of 16 bits and a rectangle of one pixel whose tile byte is 0,
  it reads that byte and nothing else, logs no warning, and fills the tile with the
  colour of the background word 0, which no data ever set: the white pixel at (0, 0)
  becomes black. The Raw decoder with the same format logs its warning and writes no
  pixel.
\<close>

theorem hextile_16_bits_writes_stale_colour:
  "(case handleHextileEncoding \<lparr>rect_x = 0, rect_y = 0, rect_w = 1, rect_h = 1\<rparr>
           (waiting_client rgb16_format 4 4 [0x00] []) of
      Inr c' \<Rightarrow> pixels (image (waiting_client rgb16_format 4 4 [0x00] [])) (0, 0) = 0xFFFFFFFF
                \<and> pixels (image c') (0, 0) = 0xFF000000
                \<and> trace c' = []
                \<and> avail (socket c') = []
    | Inl e \<Rightarrow> False)
   \<and> (case handleRawEncoding \<lparr>rect_x = 0, rect_y = 0, rect_w = 1, rect_h = 1\<rparr>
              (waiting_client rgb16_format 4 4 [0x12, 0x34] []) of
         Inr c' \<Rightarrow> pixels (image c') (0, 0) = 0xFFFFFFFF
                   \<and> trace c' = [Warned ''bits per pixel not supported'']
       | Inl e \<Rightarrow> False)"
  by code_simp

section \<open>Rectangles that cannot be decoded\<close>




text \<open>
  Whatever a FramebufferUpdate contains, when \<open>framebufferUpdate\<close> returns, the
  bytes it has written are copies of the incremental request for the whole
  framebuffer.
\<close>

lemma framebufferUpdate_writes_incremental:
  assumes "framebufferUpdate lib c = Inr c'"
  shows "(\<exists>ws k. trace c' = trace c @ ws
               \<and> wire ws = concat (replicate k
                    (request_bytes True (frameBufferWidth c) (frameBufferHeight c))))
       \<and> state c' = state c
       \<and> connected (socket c') = connected (socket c)
       \<and> frameBufferWidth c' = frameBufferWidth c
       \<and> frameBufferHeight c' = frameBufferHeight c"
  using framebufferUpdate_advances [OF assms]
  by (auto simp: advances_def requests_only_def same_session_def req_def)

section \<open>The size of the framebuffer\<close>

lemma pixelFormat_of_bytes_16:
  "length bs = 16 \<Longrightarrow> \<exists>pf. pixelFormat_of_bytes bs = Some pf"
  by (auto simp: pixelFormat_of_bytes_def length_Suc_conv numeral_eq_Suc)

lemma four_bytes: "4 \<le> length xs \<Longrightarrow> \<exists>a b c d r. xs = a # b # c # d # r"
  by (auto simp: numeral_eq_Suc Suc_le_length_iff)

lemma read_be16_ok:
  "isValid c \<Longrightarrow> avail (socket c) = a # b # r \<Longrightarrow>
   read_be16 c = Inr (be16 a b, c\<lparr>socket := (socket c)\<lparr>avail := r\<rparr>\<rparr>)"
  by (simp add: read_be16_def read_T_def socket_read_def)

lemma read_be32_ok:
  "isValid c \<Longrightarrow> avail (socket c) = a # b # d # e # r \<Longrightarrow>
   read_be32 c = Inr (be32 a b d e, c\<lparr>socket := (socket c)\<lparr>avail := r\<rparr>\<rparr>)"
  by (simp add: read_be32_def read_T_def socket_read_def)

lemma parserServerInit_image:
  assumes v: "isValid c"
    and av: "avail (socket c) = w0 # w1 # h0 # h1 # rest"
    and len: "20 \<le> length rest"
  shows "\<exists>c'. parserServerInit c = Inr c'
            \<and> image c' = fill white (QImage_new (unat (be16 w0 w1)) (unat (be16 h0 h1)))
            \<and> frameBufferWidth c' = unat (be16 w0 w1)
            \<and> frameBufferHeight c' = unat (be16 h0 h1)"
proof -
  define c1 where "c1 = c\<lparr>socket := (socket c)\<lparr>avail := h0 # h1 # rest\<rparr>\<rparr>"
  define c2 where "c2 = c1\<lparr>socket := (socket c1)\<lparr>avail := rest\<rparr>\<rparr>"
  define c4 where "c4 = (emit (FramebufferSizeChanged (unat (be16 w0 w1)) (unat (be16 h0 h1)))
                           (c2\<lparr>frameBufferWidth := unat (be16 w0 w1),
                               frameBufferHeight := unat (be16 h0 h1)\<rparr>))
                        \<lparr>image := fill white (QImage_new (unat (be16 w0 w1)) (unat (be16 h0 h1)))\<rparr>"
  have v1: "isValid c1" and v2: "isValid c2" and v4: "isValid c4"
    using v by (simp_all add: isValid_def c1_def c2_def c4_def emit_def)
  have r1: "read_be16 c = Inr (be16 w0 w1, c1)"
    unfolding c1_def by (rule read_be16_ok [OF v av])
  have r2: "read_be16 c1 = Inr (be16 h0 h1, c2)"
    unfolding c2_def by (rule read_be16_ok [OF v1]) (simp add: c1_def)
  have a4: "avail (socket c4) = rest"
    by (simp add: c4_def c2_def c1_def emit_def)
  obtain pf where pf: "pixelFormat_of_bytes (take 16 rest) = Some pf"
    using pixelFormat_of_bytes_16 [of "take 16 rest"] len by auto
  define c5 where "c5 = (c4\<lparr>socket := (socket c4)\<lparr>avail := drop 16 rest\<rparr>\<rparr>)\<lparr>pixelFormat := pf\<rparr>"
  have r5: "read_T 16 c4 = (take 16 rest, c4\<lparr>socket := (socket c4)\<lparr>avail := drop 16 rest\<rparr>\<rparr>)"
    using v4 by (simp add: read_T_def socket_read_def a4)
  have v5: "isValid c5"
    using v4 by (simp add: isValid_def c5_def)
  have "4 \<le> length (drop 16 rest)"
    using len by simp
  from four_bytes [OF this]
  obtain n0 n1 n2 n3 r6 where d: "drop 16 rest = n0 # n1 # n2 # n3 # r6"
    by blast
  define c6 where "c6 = c5\<lparr>socket := (socket c5)\<lparr>avail := r6\<rparr>\<rparr>"
  have r6: "read_be32 c5 = Inr (be32 n0 n1 n2 n3, c6)"
    unfolding c6_def by (rule read_be32_ok [OF v5]) (simp add: c5_def d)
  have i6: "image c6 = fill white (QImage_new (unat (be16 w0 w1)) (unat (be16 h0 h1)))"
    and f6: "frameBufferWidth c6 = unat (be16 w0 w1)" "frameBufferHeight c6 = unat (be16 h0 h1)"
    by (simp_all add: c6_def c5_def c4_def emit_def)
  have w: "\<And>bs d. image (write_T bs d) = image d"
    "\<And>bs d. frameBufferWidth (write_T bs d) = frameBufferWidth d"
    "\<And>bs d. frameBufferHeight (write_T bs d) = frameBufferHeight d"
    by (simp_all add: write_T_def socket_write_def emit_def)
  define c7 where "c7 = framebufferUpdateRequest False QRect_default
                          (setEncodings [Tight, ZRLE, Hextile, RawEncoding]
                            (setPixelFormat ((snd (socket_read (unat (be32 n0 n1 n2 n3)) c6))
                                               \<lparr>state := WaitingState\<rparr>)))"
  have i7: "image c7 = image c6" "frameBufferWidth c7 = frameBufferWidth c6"
    "frameBufferHeight c7 = frameBufferHeight c6"
    by (simp_all add: c7_def framebufferUpdateRequest_def setEncodings_def setPixelFormat_def
        w Let_def socket_read_def)
  have b: "\<not> bytesAvailable c < 2 + 2 + 16 + 4"
    using av len by (simp add: bytesAvailable_def)
  have "parserServerInit c = Inr c6 \<or> parserServerInit c = Inr c7"
    unfolding parserServerInit_def
    apply (simp only: b if_False r1 r2 then_do_def sum.case prod.case Let_def)
    apply (fold c4_def)
    apply (simp only: r5 prod.case pf option.case)
    apply (fold c5_def)
    apply (simp only: r6 sum.case prod.case then_do_def)
    apply (cases "bytesAvailable c6 < unat (be32 n0 n1 n2 n3)")
     apply (simp_all add: c7_def split: prod.splits)
    done
  then show ?thesis
    using i6 f6 i7 by auto
qed

text \<open>
  C5 (as the code has it). After \<open>parserServerInit\<close> has read the width W and the
  height H, both at least 1, the image has exactly that size, whether or not the name
  has arrived. Every \<open>framebufferUpdate\<close> that returns leaves the size of the image
  as it was and changes no pixel outside it. The rectangle of an \<open>imageChanged\<close>
  signal is not part of this: it is the rectangle of the message, as the server
  sent it.
\<close>

theorem framebuffer_size_kept:
  "(isValid c0 \<and> avail (socket c0) = w0 # w1 # h0 # h1 # rest
      \<and> 20 \<le> length rest \<and> be16 w0 w1 \<noteq> 0 \<and> be16 h0 h1 \<noteq> 0 \<longrightarrow>
        (\<exists>c1. parserServerInit c0 = Inr c1
            \<and> img_width (image c1) = unat (be16 w0 w1)
            \<and> img_height (image c1) = unat (be16 h0 h1)
            \<and> frameBufferWidth c1 = unat (be16 w0 w1)
            \<and> frameBufferHeight c1 = unat (be16 h0 h1)))
   \<and> (framebufferUpdate lib c = Inr c' \<longrightarrow>
        img_width (image c') = img_width (image c)
      \<and> img_height (image c') = img_height (image c)
      \<and> (\<forall>px py. \<not> (px < img_width (image c) \<and> py < img_height (image c)) \<longrightarrow>
             pixels (image c') (px, py) = pixels (image c) (px, py)))"
proof -
  have nz: "\<And>v :: quint16. v \<noteq> 0 \<Longrightarrow> unat v \<noteq> 0"
    by (simp add: unat_eq_zero)
  have a: "isValid c0 \<Longrightarrow> avail (socket c0) = w0 # w1 # h0 # h1 # rest \<Longrightarrow>
           20 \<le> length rest \<Longrightarrow> be16 w0 w1 \<noteq> 0 \<Longrightarrow> be16 h0 h1 \<noteq> 0 \<Longrightarrow>
           \<exists>c1. parserServerInit c0 = Inr c1
              \<and> img_width (image c1) = unat (be16 w0 w1)
              \<and> img_height (image c1) = unat (be16 h0 h1)
              \<and> frameBufferWidth c1 = unat (be16 w0 w1)
              \<and> frameBufferHeight c1 = unat (be16 h0 h1)"
    using parserServerInit_image [of c0 w0 w1 h0 h1 rest]
    by (auto simp: fill_def QImage_new_def nz)
  have b: "framebufferUpdate lib c = Inr c' \<Longrightarrow> image_frame (image c) (image c')"
    using framebufferUpdate_advances [of lib c c'] by (simp add: advances_def same_session_def)
  show ?thesis
    using a b unfolding image_frame_def by blast
qed

theorem framebuffer_size_kept_witness:
  "(\<exists>c1 c'. parserServerInit ((fresh_client server_init_4x4 [])\<lparr>state := ServerInitState\<rparr>) = Inr c1
        \<and> img_width (image c1) = 4 \<and> img_height (image c1) = 4
        \<and> framebufferUpdate stored_lib
             (waiting_client (rgb32_format 0) 4 4
                [0, 0, 1,  0, 100, 0, 100, 0, 1, 0, 1,  0, 0, 0, 5, 0] []) = Inr c'
        \<and> img_width (image c') = 4 \<and> img_height (image c') = 4)"
proof -
  let ?ini = "(fresh_client server_init_4x4 [])\<lparr>state := ServerInitState\<rparr>"
  let ?upd = "waiting_client (rgb32_format 0) 4 4
              [0, 0, 1,  0, 100, 0, 100, 0, 1, 0, 1,  0, 0, 0, 5, 0] []"
  have "(case framebufferUpdate stored_lib ?upd of Inr c' \<Rightarrow> True | Inl e \<Rightarrow> False)"
    by code_simp
  then obtain c' where u: "framebufferUpdate stored_lib ?upd = Inr c'"
    by (auto split: sum.splits)
  have v: "isValid ?ini"
    by (simp add: isValid_def fresh_client_def)
  have av: "avail (socket ?ini) = 0 # 4 # 0 # 4 # (pixelFormat_bytes (rgb32_format 0) @ [0, 0, 0, 0])"
    by (simp add: fresh_client_def server_init_4x4_def)
  have len: "20 \<le> length (pixelFormat_bytes (rgb32_format 0) @ [0, 0, 0, 0 :: byte])"
    by (simp add: pixelFormat_bytes_def bytes_be16_def)
  have w: "be16 0 4 \<noteq> 0" "unat (be16 0 4) = 4"
    by (simp_all add: be16_def)
  have d: "img_width (image ?upd) = 4" "img_height (image ?upd) = 4"
    by (simp_all add: waiting_client_def fill_def QImage_new_def)
  note t = framebuffer_size_kept [of ?ini 0 4 0 4
         "pixelFormat_bytes (rgb32_format 0) @ [0, 0, 0, 0]" stored_lib ?upd c']
  from t v av len w(1) obtain c1 where
    i: "parserServerInit ?ini = Inr c1"
    and a: "img_width (image c1) = unat (be16 0 4)" "img_height (image c1) = unat (be16 0 4)"
    by blast
  from t u
  have b: "img_width (image c') = img_width (image ?upd)
         \<and> img_height (image c') = img_height (image ?upd)"
    by blast
  from a b have "img_width (image c1) = 4 \<and> img_height (image c1) = 4
               \<and> img_width (image c') = 4 \<and> img_height (image c') = 4"
    by (simp only: w(2) d)
  with i u show ?thesis
    by blast
qed

text \<open>
  The claim fails where it bounds the rectangles of the signals: on a framebuffer of 4
  by 4 pixels a Hextile rectangle of one pixel at (100, 100) is announced as it came,
  far outside the framebuffer.
\<close>

theorem image_changed_outside_counterexample:
  "(case framebufferUpdate stored_lib
           (waiting_client (rgb32_format 0) 4 4
              [0, 0, 1,  0, 100, 0, 100, 0, 1, 0, 1,  0, 0, 0, 5, 0] []) of
      Inr c' \<Rightarrow> frameBufferWidth c' = 4 \<and> frameBufferHeight c' = 4
                \<and> img_width (image c') = 4 \<and> img_height (image c') = 4
                \<and> trace c' = [ImageChanged 100 100 1 1,
                               Wrote [3], Wrote [1], Wrote [0, 0, 0, 0, 0, 4, 0, 4]]
    | Inl e \<Rightarrow> False)"
  by code_simp

section \<open>Signals and requests of an update\<close>




text \<open>
  The Raw decoder is left out of the statement above: \<open>handleRawEncoding\<close> emits
  the signal at the end of every row and sends a request of its own at the end of the
  rectangle, before the signal and the request of \<open>framebufferUpdate\<close>.
\<close>

lemma raw_update_trace:
  "(case framebufferUpdate stored_lib
           (waiting_client (rgb32_format 0) 4 4 raw_update []) of
      Inr c' \<Rightarrow>
        trace c' = [ImageChanged 0 0 1 2, ImageChanged 0 0 1 2,
                    Wrote [3], Wrote [1], Wrote [0, 0, 0, 0, 0, 4, 0, 4],
                    ImageChanged 0 0 1 2,
                    Wrote [3], Wrote [1], Wrote [0, 0, 0, 0, 0, 4, 0, 4]]
    | Inl e \<Rightarrow> False)"
  by code_simp

section \<open>ZRLE decompression\<close>

text \<open>
  C2 (as the code has it). \<open>handleZRLEEncoding\<close> keeps no zlib context. Whatever
  zlib contexts the client holds, the decoder does the same and leaves them as they
  are; of the libraries it uses \<open>qUncompress\<close> alone, never the streaming inflater;
  and for a rectangle whose payload (a length that is not zero and as many bytes) is
  available, what is decoded tile by tile is \<open>qUncompress\<close> of the payload of this
  rectangle alone, an empty result being answered by a warning and a request. Every ZRLE
  rectangle is decompressed on its own, as a whole stream in the format of
  \<open>qUncompress\<close>.
\<close>

theorem handleZRLEEncoding_stateless:
  "handleZRLEEncoding lib rect (with_streams td c)
     = map_sum id (with_streams td) (handleZRLEEncoding lib rect c)
   \<and> (\<forall>c'. handleZRLEEncoding lib rect c = Inr c' \<longrightarrow> tightData c' = tightData c)
   \<and> (qUncompress lib' = qUncompress lib \<longrightarrow>
        handleZRLEEncoding lib' rect c = handleZRLEEncoding lib rect c)
   \<and> (isValid c \<and> avail (socket c) = bytes_be32 len @ data @ rest
        \<and> unat len = length data \<and> data \<noteq> [] \<longrightarrow>
        handleZRLEEncoding lib rect c
        = (if qUncompress lib data = []
           then Inr (c\<lparr>socket := (socket c)\<lparr>avail := rest\<rparr>,
                       trace := trace c
                         @ [Warned ''Failed to decompress ZRLE data, requesting new update'']
                         @ request_events c\<rparr>)
           else zrle_tiles rect (qUncompress lib data)
                  (c\<lparr>socket := (socket c)\<lparr>avail := rest\<rparr>\<rparr>)))"
  using handleZRLEEncoding_with_streams [of lib rect td c]
    handleZRLEEncoding_keeps_streams [of lib rect c]
    handleZRLEEncoding_qUncompress [of lib' lib rect c]
    handleZRLEEncoding_payload [of c len data rest lib rect]
  by blast

theorem handleZRLEEncoding_stateless_witness:
  "\<exists>c'. handleZRLEEncoding stored_lib zrle_rect1
           (waiting_client (rgb32_format 0) 4 4 (bytes_be32 20 @ zrle_payload_qt) []) = Inr c'
      \<and> zrle_tiles zrle_rect1 [1, 0, 0, 255, 0] (waiting_client (rgb32_format 0) 4 4 [] []) = Inr c'
      \<and> pixels (image c') (0, 0) = 0xFFFF0000
      \<and> tightData c' = no_streams
      \<and> handleZRLEEncoding stored_lib zrle_rect1
            (with_streams used_streams
               (waiting_client (rgb32_format 0) 4 4 (bytes_be32 20 @ zrle_payload_qt) []))
          = Inr (with_streams used_streams c')
      \<and> handleZRLEEncoding (stored_lib\<lparr>inflateInit := True\<rparr>) zrle_rect1
            (waiting_client (rgb32_format 0) 4 4 (bytes_be32 20 @ zrle_payload_qt) []) = Inr c'"
proof -
  let ?c = "waiting_client (rgb32_format 0) 4 4 (bytes_be32 20 @ zrle_payload_qt) []"
  note t = handleZRLEEncoding_stateless [of stored_lib zrle_rect1 used_streams ?c
      "stored_lib\<lparr>inflateInit := True\<rparr>" 20 zrle_payload_qt "[]"]
  have v: "isValid ?c"
    by (simp add: waiting_client_def isValid_def)
  have a: "avail (socket ?c) = bytes_be32 20 @ zrle_payload_qt @ []"
    by (simp add: waiting_client_def)
  have n: "unat (20 :: quint32) = length zrle_payload_qt" "zrle_payload_qt \<noteq> []"
    by (simp_all add: zrle_payload_qt_def)
  have q: "qUncompress stored_lib zrle_payload_qt = [1, 0, 0, 255, 0]"
    by code_simp
  have l: "qUncompress (stored_lib\<lparr>inflateInit := True\<rparr>) = qUncompress stored_lib"
    by simp
  have c0: "?c\<lparr>socket := (socket ?c)\<lparr>avail := []\<rparr>\<rparr> = waiting_client (rgb32_format 0) 4 4 [] []"
    by (simp add: waiting_client_def)
  have "(case zrle_tiles zrle_rect1 [1, 0, 0, 255, 0] (waiting_client (rgb32_format 0) 4 4 [] []) of
           Inr c' \<Rightarrow> pixels (image c') (0, 0) = 0xFFFF0000 | Inl e \<Rightarrow> False)"
    by code_simp
  then obtain c' where
    z: "zrle_tiles zrle_rect1 [1, 0, 0, 255, 0] (waiting_client (rgb32_format 0) 4 4 [] []) = Inr c'"
    and p: "pixels (image c') (0, 0) = 0xFFFF0000"
    by (auto split: sum.splits)
  from t v a n have h: "handleZRLEEncoding stored_lib zrle_rect1 ?c = Inr c'"
    by (simp add: q c0 z)
  moreover from t h have "tightData c' = no_streams"
    by (simp add: waiting_client_def)
  moreover from t h have "handleZRLEEncoding stored_lib zrle_rect1 (with_streams used_streams ?c)
                          = Inr (with_streams used_streams c')"
    by simp
  moreover from t l h have "handleZRLEEncoding (stored_lib\<lparr>inflateInit := True\<rparr>) zrle_rect1 ?c = Inr c'"
    by simp
  ultimately show ?thesis
    using z p by blast
qed

text \<open>
  The claim fails on two rectangles whose payloads are cut from one zlib stream. The
  engine cannot decompress either of them and writes no pixel; a decoder that keeps
  the inflater from the first rectangle to the second writes red at (0, 0) and blue at
  (1, 0), which is what the concatenation of the two payloads holds as one stream.
\<close>

theorem zrle_continuity_counterexample:
  "(case then_do (read stored_lib
                    (waiting_client (rgb32_format 0) 4 4
                       (zrle_message zrle_rect1 zrle_payload1 @ zrle_message zrle_rect2 zrle_payload2) []))
                 (read stored_lib) of
      Inr c' \<Rightarrow>
        pixels (image c') (0, 0) = white \<and> pixels (image c') (1, 0) = white
        \<and> filter is_warning (trace c')
            = [Warned ''Failed to decompress ZRLE data, requesting new update'',
               Warned ''Failed to decompress ZRLE data, requesting new update'']
        \<and> avail (socket c') = []
    | Inl e \<Rightarrow> False)
   \<and> (case then_do (spec_zrle_rectangle stored_lib 64 zrle_rect1 zrle_payload1
                       (inflateInit stored_lib, waiting_client (rgb32_format 0) 4 4 [] []))
                    (spec_zrle_rectangle stored_lib 64 zrle_rect2 zrle_payload2) of
         Inr (z, c') \<Rightarrow>
           pixels (image c') (0, 0) = 0xFFFF0000 \<and> pixels (image c') (1, 0) = 0xFF0000FF
       | Inl e \<Rightarrow> False)
   \<and> inflate stored_lib (inflateInit stored_lib) (zrle_payload1 @ zrle_payload2) 64
       = (Z_OK, True, [1, 0, 0, 255, 0, 1, 255, 0, 0, 0])"
  by code_simp

end
